(* ===== verification/Prelude.thy ===== *)
theory Prelude
  imports Main
    "HOL-Library.Word"
    "HOL-Library.List_Lexorder"
    "HOL-Library.Char_ord"
    "HOL-Library.AList"
    "HOL-Library.Sublist"
begin

text \<open>
  What every component of the development shares: Go strings (byte sequences), Go maps
  (association lists with distinct keys, behind the contract \<open>go_map\<close>), the error values
  the packages return, sequencing of fallible calls that thread a state, and the functions
  of the Go standard library (\<^verbatim>\<open>strings\<close>, \<^verbatim>\<open>strconv\<close>, \<^verbatim>\<open>slices\<close>, \<^verbatim>\<open>errors\<close>,
  \<^verbatim>\<open>time\<close>) that the sources call. Strings are ordered byte by byte, as in Go.
\<close>

named_theorems go_defs \<open>definitions of the standard-library functions\<close>
named_theorems model_defs \<open>definitions of the operations, to unfold by simp\<close>

section \<open>Strings\<close>

abbreviation nl :: string where "nl \<equiv> [CHR 0x0A]"
abbreviation tab :: string where "tab \<equiv> [CHR 0x09]"

definition HasSuffix :: "string \<Rightarrow> string \<Rightarrow> bool" where
  "HasSuffix s t \<longleftrightarrow> length t \<le> length s \<and> drop (length s - length t) s = t"

text \<open>
  \<open>strings.TrimSpace\<close> removes Unicode white space. A white-space rune at either end of a
  byte string is one of the following UTF-8 encodings at that end: the six ASCII ones,
  U+0085, U+00A0, U+1680, U+2000 to U+200A, U+2028, U+2029, U+202F, U+205F and U+3000.
\<close>

definition space_encodings :: "string list" where
  "space_encodings =
     map (\<lambda>c. [c]) [CHR 0x09, CHR 0x0A, CHR 0x0B, CHR 0x0C, CHR 0x0D, CHR 0x20] @
     [[CHR 0xC2, CHR 0x85], [CHR 0xC2, CHR 0xA0], [CHR 0xE1, CHR 0x9A, CHR 0x80]] @
     map (\<lambda>c. [CHR 0xE2, CHR 0x80, c])
       [CHR 0x80, CHR 0x81, CHR 0x82, CHR 0x83, CHR 0x84, CHR 0x85, CHR 0x86, CHR 0x87,
        CHR 0x88, CHR 0x89, CHR 0x8A, CHR 0xA8, CHR 0xA9, CHR 0xAF] @
     [[CHR 0xE2, CHR 0x81, CHR 0x9F], [CHR 0xE3, CHR 0x80, CHR 0x80]]"

fun strip_any :: "string list \<Rightarrow> string \<Rightarrow> string option" where
  "strip_any [] s = None"
| "strip_any (e # es) s =
     (if take (length e) s = e then Some (drop (length e) s) else strip_any es s)"

lemma strip_any_shorter:
  "\<forall>e \<in> set es. e \<noteq> [] \<Longrightarrow> strip_any es s = Some t \<Longrightarrow> length t < length s"
proof (induction es)
  case (Cons e es)
  show ?case
  proof (cases "take (length e) s = e")
    case True
    have "length e \<le> length s" by (subst True [symmetric]) simp
    moreover have "0 < length e" "length t = length s - length e" using Cons.prems True by auto
    ultimately show ?thesis by linarith
  qed (use Cons in auto)
qed simp

lemma space_encodings_nonempty: "\<forall>e \<in> set space_encodings. e \<noteq> []"
  by (auto simp: space_encodings_def)

function trim_left :: "string list \<Rightarrow> string \<Rightarrow> string" where
  "trim_left es s =
     (if [] \<in> set es then s
      else case strip_any es s of None \<Rightarrow> s | Some t \<Rightarrow> trim_left es t)"
  by pat_completeness auto
termination
  by (relation "measure (\<lambda>(es, s). length s)") (auto intro!: strip_any_shorter)

declare trim_left.simps [simp del]

definition TrimSpace :: "string \<Rightarrow> string" where
  "TrimSpace s =
     rev (trim_left (map rev space_encodings) (rev (trim_left space_encodings s)))"

definition ReplaceChar :: "char \<Rightarrow> char \<Rightarrow> string \<Rightarrow> string" where
  \<comment> \<open>\<open>strings.ReplaceAll\<close> with one-byte old and new strings\<close>
  "ReplaceChar a b s = map (\<lambda>c. if c = a then b else c) s"

definition TrimRightChar :: "char \<Rightarrow> string \<Rightarrow> string" where
  \<comment> \<open>\<open>strings.TrimRight\<close> with a one-byte cutset\<close>
  "TrimRightChar c s = rev (dropWhile (\<lambda>d. d = c) (rev s))"

fun str_index :: "string \<Rightarrow> string \<Rightarrow> nat option" where
  "str_index [] sep = (if sep = [] then Some 0 else None)"
| "str_index (c # s) sep =
     (if take (length sep) (c # s) = sep then Some 0 else map_option Suc (str_index s sep))"

definition Cut :: "string \<Rightarrow> string \<Rightarrow> string \<times> string \<times> bool" where
  "Cut s sep = (case str_index s sep of
      Some i \<Rightarrow> (take i s, drop (i + length sep) s, True)
    | None \<Rightarrow> (s, [], False))"

fun SplitChar :: "char \<Rightarrow> string \<Rightarrow> string list" where
  \<comment> \<open>\<open>strings.Split\<close> and \<open>strings.SplitSeq\<close> with a one-byte separator\<close>
  "SplitChar d [] = [[]]"
| "SplitChar d (c # s) =
     (if c = d then [] # SplitChar d s
      else (case SplitChar d s of [] \<Rightarrow> [[c]] | w # ws \<Rightarrow> (c # w) # ws))"

fun Join :: "string list \<Rightarrow> string \<Rightarrow> string" where
  "Join [] sep = []"
| "Join [x] sep = x"
| "Join (x # y # ys) sep = x @ sep @ Join (y # ys) sep"

fun Itoa :: "nat \<Rightarrow> string" where
  \<comment> \<open>\<open>strconv.Itoa\<close> on the non-negative numbers the sources pass\<close>
  "Itoa n = (if n < 10 then [char_of (48 + n)] else Itoa (n div 10) @ [char_of (48 + n mod 10)])"

declare Itoa.simps [simp del]

section \<open>Go maps\<close>

text \<open>
  A Go map with string keys is an association list whose keys are distinct. Its order is
  not observable in Go (iteration order is unspecified), and nothing observable in the
  model depends on it: see \<open>sorted_keys_ext\<close> below.
\<close>

type_synonym 'a gomap = "(string \<times> 'a) list"

definition map_get :: "'a gomap \<Rightarrow> string \<Rightarrow> 'a option" where
  "map_get m k = map_of m k"

definition map_put :: "string \<Rightarrow> 'a \<Rightarrow> 'a gomap \<Rightarrow> 'a gomap" where
  "map_put k v m = AList.update k v m"

definition map_delete :: "string \<Rightarrow> 'a gomap \<Rightarrow> 'a gomap" where
  "map_delete k m = AList.delete k m"

definition map_keys :: "'a gomap \<Rightarrow> string list" where
  "map_keys m = map fst m"

definition map_wf :: "'a gomap \<Rightarrow> bool" where
  "map_wf m \<longleftrightarrow> distinct (map fst m)"

definition map_str :: "string gomap \<Rightarrow> string \<Rightarrow> string" where
  \<comment> \<open>indexing a \<open>map[string]string\<close>: the zero value for a missing key\<close>
  "map_str m k = (case map_get m k of None \<Rightarrow> [] | Some v \<Rightarrow> v)"

locale go_map =
  fixes empty :: "'m"
    and put :: "'k::linorder \<Rightarrow> 'v \<Rightarrow> 'm \<Rightarrow> 'm"
    and remove :: "'k \<Rightarrow> 'm \<Rightarrow> 'm"
    and get :: "'m \<Rightarrow> 'k \<Rightarrow> 'v option"
    and keys :: "'m \<Rightarrow> 'k list"
    and wf :: "'m \<Rightarrow> bool"
  assumes get_empty: "get empty k = None"
    and get_put: "get (put k v m) k' = (if k' = k then Some v else get m k')"
    and get_remove: "wf m \<Longrightarrow> get (remove k m) k' = (if k' = k then None else get m k')"
    and set_keys: "set (keys m) = {k. get m k \<noteq> None}"
    and distinct_keys: "wf m \<Longrightarrow> distinct (keys m)"
    and wf_empty: "wf empty"
    and wf_put: "wf m \<Longrightarrow> wf (put k v m)"
    and wf_remove: "wf m \<Longrightarrow> wf (remove k m)"
begin

lemma get_put_same: "get (put k v m) k = Some v"
  by (simp add: get_put)

lemma get_put_other: "k' \<noteq> k \<Longrightarrow> get (put k v m) k' = get m k'"
  by (simp add: get_put)

lemma remove_put: "wf m \<Longrightarrow> get (remove k (put k v m)) = get (remove k m)"
  by (rule ext) (simp add: get_remove get_put wf_put)

lemma sorted_keys_ext:
  assumes "wf m" "wf m'" "\<And>k. get m k = get m' k"
  shows "sort (keys m) = sort (keys m')"
proof (rule map_sorted_distinct_set_unique [where f = "\<lambda>k. k"])
  show "set (sort (keys m)) = set (sort (keys m'))"
    using assms(3) by (simp add: set_keys)
qed (use assms distinct_keys in auto)

lemma sorted_keys_set: "set (sort (keys m)) = {k. get m k \<noteq> None}"
  by (simp add: set_keys)

end

lemmas gomap_defs = map_get_def map_put_def map_delete_def map_keys_def map_wf_def map_str_def

interpretation gm: go_map "[]" map_put map_delete map_get map_keys map_wf
proof unfold_locales
  fix k k' v and m :: "'a gomap"
  show "map_get [] k = None" by (simp add: gomap_defs)
  show "map_get (map_put k v m) k' = (if k' = k then Some v else map_get m k')"
    by (simp add: gomap_defs update_conv')
  show "map_wf m \<Longrightarrow> map_get (map_delete k m) k' = (if k' = k then None else map_get m k')"
    by (simp add: gomap_defs delete_conv')
  show "set (map_keys m) = {k. map_get m k \<noteq> None}"
    by (auto simp: gomap_defs map_of_eq_None_iff)
  show "map_wf m \<Longrightarrow> distinct (map_keys m)" by (simp add: gomap_defs)
  show "map_wf []" by (simp add: gomap_defs)
  show "map_wf m \<Longrightarrow> map_wf (map_put k v m)" by (simp add: gomap_defs distinct_update)
  show "map_wf m \<Longrightarrow> map_wf (map_delete k m)" by (simp add: gomap_defs distinct_delete)
qed

lemmas gm_simps [simp] = gm.get_empty gm.get_put gm.get_remove gm.wf_empty gm.wf_put gm.wf_remove

lemma map_get_delete [simp]: "map_get (map_delete k m) k' = (if k' = k then None else map_get m k')"
  by (simp add: gomap_defs AList.delete_conv')

end
