(* ===== verification/Sha256.thy ===== *)
theory Sha256
  imports Prelude
begin

text \<open>
  The functions of \<^verbatim>\<open>crypto/sha256\<close> and \<^verbatim>\<open>encoding/hex\<close> that the sources call:
  SHA-256 (FIPS 180-4) on byte strings and lower-case hexadecimal. Every content hash of
  the program (snapshot stamp, push digest, template hash, service-name suffix) is built
  from them. What is proved is their shape (32 bytes; two lower-case digits per byte;
  \<open>hex_encode\<close> is injective); that two different inputs have different digests is never
  assumed for all inputs, only named for the inputs at hand where a property needs it.
\<close>

unbundle bit_operations_syntax

type_synonym byte = "8 word"
type_synonym u32 = "32 word"

definition bytes_of :: "string \<Rightarrow> byte list" where
  "bytes_of s = map (\<lambda>c. word_of_nat (of_char c)) s"

definition rotr32 :: "nat \<Rightarrow> u32 \<Rightarrow> u32" where
  "rotr32 n x = drop_bit n x OR push_bit (32 - n) x"

definition sha_ch :: "u32 \<Rightarrow> u32 \<Rightarrow> u32 \<Rightarrow> u32" where
  "sha_ch x y z = (x AND y) XOR (NOT x AND z)"

definition sha_maj :: "u32 \<Rightarrow> u32 \<Rightarrow> u32 \<Rightarrow> u32" where
  "sha_maj x y z = (x AND y) XOR (x AND z) XOR (y AND z)"

definition big_sigma0 :: "u32 \<Rightarrow> u32" where
  "big_sigma0 x = rotr32 2 x XOR rotr32 13 x XOR rotr32 22 x"

definition big_sigma1 :: "u32 \<Rightarrow> u32" where
  "big_sigma1 x = rotr32 6 x XOR rotr32 11 x XOR rotr32 25 x"

definition small_sigma0 :: "u32 \<Rightarrow> u32" where
  "small_sigma0 x = rotr32 7 x XOR rotr32 18 x XOR drop_bit 3 x"

definition small_sigma1 :: "u32 \<Rightarrow> u32" where
  "small_sigma1 x = rotr32 17 x XOR rotr32 19 x XOR drop_bit 10 x"

definition be_row :: "256 word \<Rightarrow> u32 list" where
  \<comment> \<open>eight 32-bit words packed into one numeral, most significant first\<close>
  "be_row x = map (\<lambda>i. ucast (drop_bit (224 - 32 * i) x)) [0..<8]"

definition sha_k :: "u32 list" where
  \<comment> \<open>the 64 round constants, a row of eight at a time\<close>
  "sha_k = concat (map be_row
    [0x428a2f9871374491b5c0fbcfe9b5dba53956c25b59f111f1923f82a4ab1c5ed5,
     0xd807aa9812835b01243185be550c7dc372be5d7480deb1fe9bdc06a7c19bf174,
     0xe49b69c1efbe47860fc19dc6240ca1cc2de92c6f4a7484aa5cb0a9dc76f988da,
     0x983e5152a831c66db00327c8bf597fc7c6e00bf3d5a7914706ca635114292967,
     0x27b70a852e1b21384d2c6dfc53380d13650a7354766a0abb81c2c92e92722c85,
     0xa2bfe8a1a81a664bc24b8b70c76c51a3d192e819d6990624f40e3585106aa070,
     0x19a4c1161e376c082748774c34b0bcb5391c0cb34ed8aa4a5b9cca4f682e6ff3,
     0x748f82ee78a5636f84c878148cc7020890befffaa4506cebbef9a3f7c67178f2])"

type_synonym sha_state = "u32 \<times> u32 \<times> u32 \<times> u32 \<times> u32 \<times> u32 \<times> u32 \<times> u32"

definition sha_init :: sha_state where
  "sha_init = (0x6a09e667, 0xbb67ae85, 0x3c6ef372, 0xa54ff53a,
               0x510e527f, 0x9b05688c, 0x1f83d9ab, 0x5be0cd19)"

definition be_bytes32 :: "u32 \<Rightarrow> byte list" where
  "be_bytes32 x = [ucast (drop_bit 24 x), ucast (drop_bit 16 x), ucast (drop_bit 8 x), ucast x]"

definition be_bytes64 :: "64 word \<Rightarrow> byte list" where
  "be_bytes64 x = be_bytes32 (ucast (drop_bit 32 x)) @ be_bytes32 (ucast x)"

definition sha_pad :: "byte list \<Rightarrow> byte list" where
  "sha_pad m =
     m @ [0x80] @ replicate ((119 - length m mod 64) mod 64) 0 @
     be_bytes64 (word_of_nat (8 * length m))"

fun be_words :: "byte list \<Rightarrow> u32 list" where
  "be_words (a # b # c # d # bs) =
     (push_bit 24 (ucast a) OR push_bit 16 (ucast b) OR push_bit 8 (ucast c) OR ucast d) # be_words bs"
| "be_words bs = []"

text \<open>
  The message schedule keeps the last sixteen words, newest last; each further word is
  computed from the 2nd, 7th, 15th and 16th last.
\<close>

definition sched_next :: "u32 list \<Rightarrow> u32" where
  "sched_next w = small_sigma1 (w ! 14) + w ! 9 + small_sigma0 (w ! 1) + w ! 0"

definition sha_round :: "u32 \<Rightarrow> u32 \<Rightarrow> sha_state \<Rightarrow> sha_state" where
  "sha_round k w = (\<lambda>(a, b, c, d, e, f, g, h).
     let t1 = h + big_sigma1 e + sha_ch e f g + k + w;
         t2 = big_sigma0 a + sha_maj a b c
     in (t1 + t2, a, b, c, d + t1, e, f, g))"

fun sha_rounds :: "u32 list \<Rightarrow> u32 list \<Rightarrow> sha_state \<Rightarrow> sha_state" where
  "sha_rounds [] w s = s"
| "sha_rounds (k # ks) w s = sha_rounds ks (tl w @ [sched_next w]) (sha_round k (hd w) s)"

definition sha_add :: "sha_state \<Rightarrow> sha_state \<Rightarrow> sha_state" where
  "sha_add = (\<lambda>(a, b, c, d, e, f, g, h) (a', b', c', d', e', f', g', h').
     (a + a', b + b', c + c', d + d', e + e', f + f', g + g', h + h'))"

fun sha_blocks :: "nat \<Rightarrow> u32 list \<Rightarrow> sha_state \<Rightarrow> sha_state" where
  \<comment> \<open>as many blocks of sixteen words as the first argument says\<close>
  "sha_blocks 0 ws s = s"
| "sha_blocks (Suc n) ws s =
     sha_blocks n (drop 16 ws) (sha_add s (sha_rounds sha_k (take 16 ws) s))"

definition sha_out :: "sha_state \<Rightarrow> byte list" where
  "sha_out = (\<lambda>(a, b, c, d, e, f, g, h). concat (map be_bytes32 [a, b, c, d, e, f, g, h]))"

definition Sum256 :: "string \<Rightarrow> byte list" where
  "Sum256 s = (let ws = be_words (sha_pad (bytes_of s))
               in sha_out (sha_blocks (length ws div 16) ws sha_init))"

definition hex_digit :: "nat \<Rightarrow> char" where
  "hex_digit n = ''0123456789abcdef'' ! n"

definition hex_byte :: "byte \<Rightarrow> string" where
  "hex_byte b = [hex_digit (unat b div 16), hex_digit (unat b mod 16)]"

definition hex_encode :: "byte list \<Rightarrow> string" where
  "hex_encode bs = concat (map hex_byte bs)"

section \<open>Shape of digests and of hexadecimal text\<close>

lemma length_be_bytes32 [simp]: "length (be_bytes32 x) = 4"
  by (simp add: be_bytes32_def)

lemma length_Sum256 [simp]: "length (Sum256 s) = 32"
  by (simp add: Sum256_def sha_out_def Let_def split: prod.split)

lemma length_hex_encode [simp]: "length (hex_encode bs) = 2 * length bs"
  by (induction bs) (auto simp: hex_encode_def hex_byte_def)

definition is_hex_char :: "char \<Rightarrow> bool" where
  "is_hex_char c \<longleftrightarrow> c \<in> set ''0123456789abcdef''"

lemma hex_digit_is_hex: "n < 16 \<Longrightarrow> is_hex_char (hex_digit n)"
  unfolding is_hex_char_def hex_digit_def by (rule nth_mem) simp

lemma unat_byte_less: "unat (b :: byte) < 256"
  using unsigned_less [of b] by simp

lemma hex_encode_chars: "c \<in> set (hex_encode bs) \<Longrightarrow> is_hex_char c"
proof (induction bs)
  case (Cons b bs)
  have "unat b div 16 < 16" "unat b mod 16 < 16"
    using unat_byte_less [of b] by auto
  with Cons show ?case
    by (auto simp: hex_encode_def hex_byte_def intro: hex_digit_is_hex)
qed (simp add: hex_encode_def)

lemma distinct_hex_digits: "distinct ''0123456789abcdef''"
  by simp

lemma hex_digit_inj: "m < 16 \<Longrightarrow> n < 16 \<Longrightarrow> hex_digit m = hex_digit n \<Longrightarrow> m = n"
  unfolding hex_digit_def
  by (subst (asm) nth_eq_iff_index_eq [OF distinct_hex_digits]) simp_all

lemma hex_byte_inj: "hex_byte a = hex_byte b \<Longrightarrow> a = b"
proof -
  assume "hex_byte a = hex_byte b"
  moreover have "unat a div 16 < 16" "unat b div 16 < 16" "unat a mod 16 < 16" "unat b mod 16 < 16"
    using unat_byte_less [of a] unat_byte_less [of b] by auto
  ultimately have "unat a div 16 = unat b div 16" "unat a mod 16 = unat b mod 16"
    by (auto simp: hex_byte_def intro: hex_digit_inj)
  then have "unat a = unat b"
    by (metis div_mult_mod_eq)
  then show "a = b" by (simp add: word_unat_eq_iff)
qed

lemma hex_encode_inj: "hex_encode as = hex_encode bs \<Longrightarrow> as = bs"
proof (induction as arbitrary: bs)
  case Nil
  then show ?case by (cases bs) (auto simp: hex_encode_def hex_byte_def)
next
  case (Cons a as)
  then obtain b bs' where bs: "bs = b # bs'"
    by (cases bs) (auto simp: hex_encode_def hex_byte_def)
  with Cons.prems have "hex_byte a = hex_byte b" "hex_encode as = hex_encode bs'"
    by (auto simp: hex_encode_def hex_byte_def)
  with Cons.IH bs show ?case by (auto dest: hex_byte_inj)
qed

end
