(* ===== verification/Kube.thy ===== *)
theory Kube
  imports Prelude
begin

text \<open>
  The Kubernetes side of the model. Objects carry the fields the sources read; apply
  configurations carry the fields the sources set. The API server itself is outside the
  repository: it is a parameter \<open>kube_api\<close> of the operations, a record of calls on an
  arbitrary server state \<open>'s\<close>, and \<open>object_store\<close> and \<open>kube_server\<close> state what the
  code relies on of its documented behaviour. The informer caches the controller reads are
  a record of lookups, \<open>listers\<close>.
\<close>

section \<open>Errors\<close>

text \<open>
  An error value keeps what the sources test of it: whether it wraps a rejected configuration,
  which API status it wraps, and whether it wraps \<^verbatim>\<open>context.Canceled\<close> (\<open>ErrCanceled\<close>, or an API
  call that failed with \<open>ApiCanceled\<close>).
\<close>

datatype api_error = NotFound | Conflict | ApiCanceled | ApiFailure string

datatype error =
    ErrConfigRejected string
  | ErrApi string api_error
  | ErrInvalidName string string "string list"
  | ErrHttp string string
  | ErrMsg string
  | ErrCanceled string
  | ErrJoined "error list"

definition errors_Join :: "error option list \<Rightarrow> error option" where
  "errors_Join es = (let xs = List.map_filter id es in if xs = [] then None else Some (ErrJoined xs))"

lemma errors_Join_None: "errors_Join es = None \<longleftrightarrow> (\<forall>e \<in> set es. e = None)"
  by (induction es) (auto simp: errors_Join_def Let_def List.map_filter_def)

section \<open>Times, labels and object metadata\<close>

type_synonym time = int       \<comment> \<open>nanoseconds\<close>
type_synonym int32 = "32 word"
type_synonym labels = "string gomap"

definition second :: int where "second = 10 ^ 9"
definition minute :: int where "minute = 60 * second"

definition time_Sub :: "time \<Rightarrow> time \<Rightarrow> int" where
  \<comment> \<open>\<open>Time.Sub\<close> saturates at the bounds of a 64-bit duration\<close>
  "time_Sub t u = max (- (2 ^ 63)) (min (2 ^ 63 - 1) (t - u))"

definition selects :: "labels \<Rightarrow> labels \<Rightarrow> bool" where
  \<comment> \<open>\<open>labels.SelectorFromSet(sel)\<close> matches an object with labels \<open>ls\<close>\<close>
  "selects sel ls \<longleftrightarrow> (\<forall>(k, v) \<in> set sel. map_get ls k = Some v)"

record object_meta =
  Name :: string
  ObjNamespace :: string
  UID :: string
  Labels :: labels
  Annotations :: "string gomap"
  CreationTimestamp :: time
  DeletionTimestamp :: "time option"
  Generation :: int

section \<open>Objects\<close>

datatype condition_status = ConditionTrue | ConditionFalse | StatusOther string
datatype node_condition_type = NodeReady | NodeConditionOther string
datatype pod_condition_type = PodScheduled | PodConditionOther string
datatype deployment_condition_type =
  DeploymentReplicaFailure | DeploymentProgressing | DeploymentAvailable | DeploymentConditionOther string
datatype pod_phase = PodFailed | PodSucceeded | PhaseOther string

record 't condition =
  CondType :: 't
  CondStatus :: condition_status
  CondReason :: string
  CondMessage :: string
  LastTransitionTime :: time

record node = object_meta +
  Unschedulable :: bool
  NodeConditions :: "node_condition_type condition list"

record container_status =
  CsName :: string
  ContainerID :: string
  Started :: "bool option"
  Waiting :: "(string \<times> string) option"   \<comment> \<open>reason and message\<close>
  Running :: bool
  Terminated :: bool

record container =
  CName :: string
  CImage :: string

record pod = object_meta +
  Phase :: pod_phase
  PodReason :: string
  PodIP :: string
  PodConditions :: "pod_condition_type condition list"
  ContainerStatuses :: "container_status list"
  PodContainers :: "container list"

record deployment = object_meta +
  SpecReplicas :: "int32 option"
  ProgressDeadlineSeconds :: "int32 option"
  TemplateContainers :: "container list"
  ObservedGeneration :: int
  StReplicas :: int32
  UpdatedReplicas :: int32
  AvailableReplicas :: int32
  DepConditions :: "deployment_condition_type condition list"

record config_map = object_meta +
  Data :: "string gomap"

type_synonym service = object_meta

section \<open>Apply configurations\<close>

datatype protocol = ProtocolTCP | ProtocolUDP
datatype dns_policy = DNSClusterFirst | DNSClusterFirstWithHostNet
datatype restart_policy = RestartPolicyNever | RestartPolicyOther string
datatype seccomp_type = SeccompRuntimeDefault | SeccompOther string
datatype field_key = ObjectNameField | FieldKey string
datatype selector_op = NodeSelectorOpIn | NodeSelectorOther string
datatype uri_scheme = URISchemeHTTP | URISchemeOther string
datatype host_path_type = HostPathDirectoryOrCreate | HostPathOther string
datatype service_type = ServiceTypeLoadBalancer | ServiceTypeOther string
datatype traffic_policy = TrafficPolicyLocal | TrafficPolicyOther string

record node_requirement =
  ReqKey :: field_key
  ReqOperator :: selector_op
  ReqValues :: "string list"

record container_port =
  PortName :: string
  ContainerPort :: int32
  PortProtocol :: protocol
  HostPort :: "int32 option"

record service_port =
  SpName :: string
  SpPort :: int32
  SpTargetPort :: int32
  SpProtocol :: protocol

record volume_mount =
  MountName :: string
  MountPath :: string
  SubPath :: "string option"
  MountReadOnly :: "bool option"

datatype env_source = SecretKeyRef string string | FieldRef string

record env_var =
  EnvName :: string
  EnvValueFrom :: env_source

record probe =
  ProbePath :: string
  ProbePort :: int32
  ProbeScheme :: uri_scheme
  ProbeHeaders :: "(string \<times> string) list"
  PeriodSeconds :: int32
  TimeoutSeconds :: int32
  FailureThreshold :: int32

record security =
  AllowPrivilegeEscalation :: "bool option"
  RunAsNonRoot :: bool
  RunAsUser :: "int option"
  RunAsGroup :: "int option"
  CapAdd :: "string list"
  CapDrop :: "string list"
  Seccomp :: seccomp_type

datatype volume_source =
    ConfigMapVolume string "(string \<times> string) list"
  | PVCVolume string
  | HostPathVolume string host_path_type

record volume =
  VolName :: string
  VolSource :: volume_source

record container_apply =
  CaName :: string
  CaImage :: string
  CaPullPolicy :: string
  CaCommand :: "string list"
  CaPorts :: "container_port list"
  CaMounts :: "volume_mount list"
  CaEnv :: "env_var list"
  CaStartup :: "probe option"
  CaLiveness :: "probe option"
  CaReadiness :: "probe option"
  CaSecurity :: security

record pod_spec_apply =
  NodeAffinity :: "node_requirement list"
  AutomountServiceAccountToken :: bool
  PodSecurity :: security
  SpecContainers :: "container_apply list"
  SpecVolumes :: "volume list"
  DNSPolicy :: "dns_policy option"
  HostNetwork :: "bool option"
  RestartPolicy :: "restart_policy option"

record pod_template =
  TplLabels :: labels
  TplSpec :: pod_spec_apply

datatype strategy = RollingUpdate int32 int32 | Recreate

record apply_meta =
  ApName :: string
  ApNamespace :: string
  ApLabels :: labels
  ApAnnotations :: "string gomap"

record config_map_apply = apply_meta +
  ApData :: "string gomap"

record deployment_apply = apply_meta +
  ApReplicas :: int32
  ApStrategy :: strategy
  ApSelector :: labels
  ApTemplate :: pod_template

record service_apply = apply_meta +
  SvcSelector :: labels
  SvcType :: service_type
  LoadBalancerClass :: string
  ExternalTrafficPolicy :: traffic_policy
  AllocateLoadBalancerNodePorts :: bool
  ExternalIPs :: "string list"
  SvcPorts :: "service_port list"

record pod_apply = apply_meta +
  ApPodSpec :: pod_spec_apply

record apply_options =
  FieldManager :: string
  Force :: bool

record delete_options =
  GracePeriodSeconds :: "int option"
  PreconditionUID :: "string option"

section \<open>The API server and the informer caches as parameters\<close>

record 's kube_api =
  configmaps_get :: "string \<Rightarrow> string \<Rightarrow> 's \<Rightarrow> (api_error + config_map) \<times> 's"
  configmaps_apply :: "config_map_apply \<Rightarrow> apply_options \<Rightarrow> 's \<Rightarrow> api_error option \<times> 's"
  deployments_list :: "string \<Rightarrow> labels \<Rightarrow> 's \<Rightarrow> (api_error + deployment list) \<times> 's"
  deployments_apply :: "deployment_apply \<Rightarrow> apply_options \<Rightarrow> 's \<Rightarrow> api_error option \<times> 's"
  deployments_delete :: "string \<Rightarrow> string \<Rightarrow> delete_options \<Rightarrow> 's \<Rightarrow> api_error option \<times> 's"
  services_list :: "string \<Rightarrow> labels \<Rightarrow> 's \<Rightarrow> (api_error + service list) \<times> 's"
  services_apply :: "service_apply \<Rightarrow> apply_options \<Rightarrow> 's \<Rightarrow> api_error option \<times> 's"
  services_delete :: "string \<Rightarrow> string \<Rightarrow> delete_options \<Rightarrow> 's \<Rightarrow> api_error option \<times> 's"
  pods_list :: "string \<Rightarrow> labels \<Rightarrow> 's \<Rightarrow> (api_error + pod list) \<times> 's"
  pods_apply :: "pod_apply \<Rightarrow> apply_options \<Rightarrow> 's \<Rightarrow> api_error option \<times> 's"
  pods_delete :: "string \<Rightarrow> string \<Rightarrow> delete_options \<Rightarrow> 's \<Rightarrow> api_error option \<times> 's"

record listers =
  nodes_get :: "string \<Rightarrow> api_error + node"
  nodes_list :: "(labels \<Rightarrow> bool) \<Rightarrow> api_error + node list"
  cached_deployment :: "string \<Rightarrow> string \<Rightarrow> api_error + deployment"
  cached_pod :: "string \<Rightarrow> string \<Rightarrow> api_error + pod"
  cached_pods :: "string \<Rightarrow> labels \<Rightarrow> api_error + pod list"

section \<open>What the code relies on of the server\<close>

definition at :: "string \<Rightarrow> string \<Rightarrow> 'a object_meta_scheme \<Rightarrow> bool" where
  "at ns n x \<longleftrightarrow> ObjNamespace x = ns \<and> Name x = n"

definition delete_target :: "string \<Rightarrow> string \<Rightarrow> delete_options \<Rightarrow> 'a object_meta_scheme \<Rightarrow> bool" where
  "delete_target ns n d x \<longleftrightarrow>
     at ns n x \<and> (case PreconditionUID d of None \<Rightarrow> True | Some u \<Rightarrow> UID x = u)"

text \<open>
  One kind of object: a list call returns the selected objects of the namespace; a delete
  removes at most its target, removes it when it succeeds, and reports \<open>NotFound\<close> only when
  there is none. A failed call may or may not have taken effect.
\<close>

locale object_store =
  fixes list :: "string \<Rightarrow> labels \<Rightarrow> 's \<Rightarrow> (api_error + 'a object_meta_scheme list) \<times> 's"
    and delete :: "string \<Rightarrow> string \<Rightarrow> delete_options \<Rightarrow> 's \<Rightarrow> api_error option \<times> 's"
    and view :: "'s \<Rightarrow> 'a object_meta_scheme list"
  assumes list_view: "view (snd (list ns sel w)) = view w"
    and list_result: "list ns sel w = (Inr xs, w') \<Longrightarrow>
      set xs = {x \<in> set (view w). ObjNamespace x = ns \<and> selects sel (Labels x)}"
    and delete_at_most: "view (snd (delete ns n d w)) = view w \<or>
      view (snd (delete ns n d w)) = filter (\<lambda>x. \<not> delete_target ns n d x) (view w)"
    and delete_done: "delete ns n d w = (None, w') \<Longrightarrow>
      view w' = filter (\<lambda>x. \<not> delete_target ns n d x) (view w)"
    and delete_missing: "delete ns n d w = (Some NotFound, w') \<Longrightarrow>
      view w' = view w \<and> (\<forall>x \<in> set (view w). \<not> at ns n x)"
begin

lemma delete_subset: "set (view (snd (delete ns n d w))) \<subseteq> set (view w)"
  using delete_at_most [of ns n d w] by auto

lemma delete_keeps: "x \<in> set (view w) \<Longrightarrow> \<not> delete_target ns n d x \<Longrightarrow>
    x \<in> set (view (snd (delete ns n d w)))"
  using delete_at_most [of ns n d w] by auto

lemma delete_gone:
  assumes "delete ns n d w = (r, w')" "r = None \<or> r = Some NotFound"
  shows "set (view w') = {x \<in> set (view w). \<not> delete_target ns n d x}"
  using assms delete_done [of ns n d w w'] delete_missing [of ns n d w w']
  by (auto simp: delete_target_def)

end

text \<open>
  A delete with a UID precondition is refused with a conflict only when the object of that name
  is another one.
\<close>

locale uid_precondition =
  fixes delete :: "string \<Rightarrow> string \<Rightarrow> delete_options \<Rightarrow> 's \<Rightarrow> api_error option \<times> 's"
    and view :: "'s \<Rightarrow> 'a object_meta_scheme list"
  assumes conflict_other: "delete ns n d w = (Some Conflict, w') \<Longrightarrow> PreconditionUID d \<noteq> None \<Longrightarrow>
      \<forall>x \<in> set (view w). \<not> delete_target ns n d x"

text \<open>
  ConfigMaps are read and server-side applied by name: a successful apply leaves an object
  that carries the applied data and annotations, and no call touches another name.
\<close>

definition carries :: "'a gomap \<Rightarrow> 'a gomap \<Rightarrow> bool" where
  "carries m a \<longleftrightarrow> (\<forall>k v. map_get a k = Some v \<longrightarrow> map_get m k = Some v)"

locale config_store =
  fixes get :: "string \<Rightarrow> string \<Rightarrow> 's \<Rightarrow> (api_error + config_map) \<times> 's"
    and app :: "config_map_apply \<Rightarrow> apply_options \<Rightarrow> 's \<Rightarrow> api_error option \<times> 's"
    and find :: "string \<Rightarrow> string \<Rightarrow> 's \<Rightarrow> config_map option"
  assumes get_find: "find ns' n' (snd (get ns n w)) = find ns' n' w"
    and get_found: "get ns n w = (Inr c, w') \<Longrightarrow> find ns n w = Some c"
    and get_missing: "get ns n w = (Inl NotFound, w') \<Longrightarrow> find ns n w = None"
    and app_done: "app a opts w = (None, w') \<Longrightarrow>
      (\<exists>c. find (ApNamespace a) (ApName a) w' = Some c \<and>
           carries (Data c) (ApData a) \<and> carries (Annotations c) (ApAnnotations a))"
    and app_other: "(ns, n) \<noteq> (ApNamespace a, ApName a) \<Longrightarrow>
      find ns n (snd (app a opts w)) = find ns n w"

text \<open>
  Server-side apply: a successful apply leaves an object of that name that carries the applied
  labels and annotations; objects of other names are not touched, whatever the outcome.
\<close>

definition names_unique :: "'a object_meta_scheme list \<Rightarrow> bool" where
  "names_unique xs \<longleftrightarrow>
     (\<forall>x \<in> set xs. \<forall>y \<in> set xs. ObjNamespace x = ObjNamespace y \<and> Name x = Name y \<longrightarrow> x = y)"

locale object_apply =
  fixes app :: "'b apply_meta_scheme \<Rightarrow> apply_options \<Rightarrow> 's \<Rightarrow> api_error option \<times> 's"
    and view :: "'s \<Rightarrow> 'a object_meta_scheme list"
  assumes apply_done: "app a opts w = (None, w') \<Longrightarrow>
      \<exists>x \<in> set (view w'). at (ApNamespace a) (ApName a) x \<and>
        carries (Labels x) (ApLabels a) \<and> carries (Annotations x) (ApAnnotations a)"
    and apply_other: "\<not> at (ApNamespace a) (ApName a) x \<Longrightarrow>
      x \<in> set (view (snd (app a opts w))) \<longleftrightarrow> x \<in> set (view w)"
    and apply_unique: "names_unique (view w) \<Longrightarrow> names_unique (view (snd (app a opts w)))"

definition untouched :: "('s \<Rightarrow> 'v) \<Rightarrow> ('s \<Rightarrow> 'r \<times> 's) \<Rightarrow> bool" where
  "untouched v call \<longleftrightarrow> (\<forall>w. v (snd (call w)) = v w)"

lemma untouchedD: "untouched v call \<Longrightarrow> call w = (r, w') \<Longrightarrow> v w' = v w"
  by (metis snd_conv untouched_def)

locale kube_server =
  deps: object_store "deployments_list api" "deployments_delete api" v_deps +
  svcs: object_store "services_list api" "services_delete api" v_svcs +
  pods: object_store "pods_list api" "pods_delete api" v_pods +
  dep_ap: object_apply "deployments_apply api" v_deps +
  svc_ap: object_apply "services_apply api" v_svcs +
  pod_ap: object_apply "pods_apply api" v_pods
  for api :: "'s kube_api"
    and v_deps :: "'s \<Rightarrow> deployment list"
    and v_svcs :: "'s \<Rightarrow> service list"
    and v_pods :: "'s \<Rightarrow> pod list" +
  assumes deployments_frame:
      "untouched v_svcs (deployments_list api ns sel)" "untouched v_pods (deployments_list api ns sel)"
      "untouched v_svcs (deployments_delete api ns n d)" "untouched v_pods (deployments_delete api ns n d)"
      "untouched v_svcs (deployments_apply api da opts)" "untouched v_pods (deployments_apply api da opts)"
    and services_frame:
      "untouched v_deps (services_list api ns sel)" "untouched v_pods (services_list api ns sel)"
      "untouched v_deps (services_delete api ns n d)" "untouched v_pods (services_delete api ns n d)"
      "untouched v_deps (services_apply api sa opts)" "untouched v_pods (services_apply api sa opts)"
    and pods_frame:
      "untouched v_deps (pods_list api ns sel)" "untouched v_svcs (pods_list api ns sel)"
      "untouched v_deps (pods_delete api ns n d)" "untouched v_svcs (pods_delete api ns n d)"
      "untouched v_deps (pods_apply api pa opts)" "untouched v_svcs (pods_apply api pa opts)"

end
