(* ===== verification/Naming.thy ===== *)
theory Naming
  imports Sha256 Kube
begin

text \<open>
  \<^verbatim>\<open>pkg/caddy/naming.go\<close>: the names and labels derived from a node name, and the
  name checks. The validation functions of \<^verbatim>\<open>k8s.io/apimachinery\<close> are a parameter,
  the record \<open>validators\<close>; \<open>k8s_validation\<close> states the documented languages they accept.
\<close>

section \<open>Validation functions of apimachinery\<close>

record validators =
  IsDNS1123Label :: "string \<Rightarrow> string list"
  IsDNS1123Subdomain :: "string \<Rightarrow> string list"
  IsDNS1035Label :: "string \<Rightarrow> string list"
  IsLabelValue :: "string \<Rightarrow> string list"
  IsConfigMapKey :: "string \<Rightarrow> string list"
  DNS1035LabelMaxLength :: nat

definition ValidateName :: "string \<Rightarrow> string \<Rightarrow> (string \<Rightarrow> string list) \<Rightarrow> error option" where
  "ValidateName kind name check =
     (let errs = check name in if length errs > 0 then Some (ErrInvalidName kind name errs) else None)"

section \<open>Constants\<close>

definition labelApp :: string where "labelApp = ''app''"
definition labelInstance :: string where "labelInstance = ''instance''"
definition labelCaddyManaged :: string where "labelCaddyManaged = ''ckic.cmld.ru/caddy-managed''"
definition labelType :: string where "labelType = ''ckic.cmld.ru/type''"
definition labelAppValue :: string where "labelAppValue = ''caddy''"
definition labelManagedValue :: string where "labelManagedValue = ''true''"
definition labelTypeBootConfig :: string where "labelTypeBootConfig = ''aggregated-config''"
definition labelTypePrePull :: string where "labelTypePrePull = ''image-prepull''"
definition annotationTemplateHash :: string where
  "annotationTemplateHash = ''ckic.cmld.ru/template-hash''"

lemmas label_consts = labelApp_def labelInstance_def labelCaddyManaged_def labelType_def
  labelAppValue_def labelManagedValue_def labelTypeBootConfig_def labelTypePrePull_def

section \<open>Names\<close>

definition DeploymentName :: "string \<Rightarrow> string" where
  "DeploymentName nodeName = ''caddy-'' @ nodeName"

definition loadBalancerServiceName :: "validators \<Rightarrow> string \<Rightarrow> string" where
  "loadBalancerServiceName V nodeName =
     (let name = DeploymentName nodeName @ ''-loadbalancer'' in
      if length (IsDNS1035Label V name) = 0 then name
      else
        let digest = Sum256 nodeName;
            suffix = ''-'' @ hex_encode (take 6 digest) @ ''-lb'';
            prefix = DeploymentName (ReplaceChar CHR ''.'' CHR ''-'' nodeName);
            prefix = take (min (length prefix) (DNS1035LabelMaxLength V - length suffix)) prefix
        in TrimRightChar CHR ''-'' prefix @ suffix)"

definition PrePullPodName :: "string \<Rightarrow> string" where
  "PrePullPodName nodeName = ''caddy-prepull-'' @ nodeName"

section \<open>Labels\<close>

definition selectorLabels :: "string \<Rightarrow> labels" where
  "selectorLabels nodeName = [(labelApp, labelAppValue), (labelInstance, nodeName)]"

definition ManagedLabels :: "string \<Rightarrow> labels" where
  "ManagedLabels nodeName = map_put labelCaddyManaged labelManagedValue (selectorLabels nodeName)"

definition ManagedNodeName :: "'a object_meta_scheme \<Rightarrow> string" where
  "ManagedNodeName obj =
     (let objLabels = Labels obj in
      if map_str objLabels labelCaddyManaged \<noteq> labelManagedValue then []
      else map_str objLabels labelInstance)"

definition BootConfigLabels :: labels where
  "BootConfigLabels = [(labelCaddyManaged, labelManagedValue), (labelType, labelTypeBootConfig)]"

definition managedListOptions :: "string \<Rightarrow> labels" where
  \<comment> \<open>the label set whose selector string the list options carry\<close>
  "managedListOptions nodeName = ManagedLabels nodeName"

section \<open>The documented name syntax\<close>

definition is_lower :: "char \<Rightarrow> bool" where
  "is_lower c \<longleftrightarrow> c \<in> set ''abcdefghijklmnopqrstuvwxyz''"

definition is_upper :: "char \<Rightarrow> bool" where
  "is_upper c \<longleftrightarrow> c \<in> set ''ABCDEFGHIJKLMNOPQRSTUVWXYZ''"

definition is_digit :: "char \<Rightarrow> bool" where
  "is_digit c \<longleftrightarrow> c \<in> set ''0123456789''"

definition dns_char :: "char \<Rightarrow> bool" where
  "dns_char c \<longleftrightarrow> is_lower c \<or> is_digit c \<or> c = CHR ''-''"

definition dns1123_word :: "string \<Rightarrow> bool" where
  "dns1123_word s \<longleftrightarrow>
     s \<noteq> [] \<and> list_all dns_char s \<and> hd s \<noteq> CHR ''-'' \<and> last s \<noteq> CHR ''-''"

definition dns1123_label :: "string \<Rightarrow> bool" where
  "dns1123_label s \<longleftrightarrow> length s \<le> 63 \<and> dns1123_word s"

definition dns1123_subdomain :: "string \<Rightarrow> bool" where
  "dns1123_subdomain s \<longleftrightarrow> length s \<le> 253 \<and> list_all dns1123_word (SplitChar CHR ''.'' s)"

definition dns1035_label :: "string \<Rightarrow> bool" where
  "dns1035_label s \<longleftrightarrow>
     length s \<le> 63 \<and> s \<noteq> [] \<and> list_all dns_char s \<and> is_lower (hd s) \<and> last s \<noteq> CHR ''-''"

definition alnum :: "char \<Rightarrow> bool" where
  "alnum c \<longleftrightarrow> is_lower c \<or> is_upper c \<or> is_digit c"

definition label_value :: "string \<Rightarrow> bool" where
  "label_value s \<longleftrightarrow>
     length s \<le> 63 \<and>
     (s = [] \<or> list_all (\<lambda>c. alnum c \<or> c \<in> set ''-_.'') s \<and> alnum (hd s) \<and> alnum (last s))"

definition config_map_key :: "string \<Rightarrow> bool" where
  "config_map_key s \<longleftrightarrow>
     length s \<le> 253 \<and> s \<noteq> [] \<and> list_all (\<lambda>c. alnum c \<or> c \<in> set ''-_.'') s \<and>
     s \<noteq> ''.'' \<and> take 2 s \<noteq> ''..''"

locale k8s_validation =
  fixes V :: validators
  assumes dns1123_label_check: "IsDNS1123Label V s = [] \<longleftrightarrow> dns1123_label s"
    and dns1123_subdomain_check: "IsDNS1123Subdomain V s = [] \<longleftrightarrow> dns1123_subdomain s"
    and dns1035_label_check: "IsDNS1035Label V s = [] \<longleftrightarrow> dns1035_label s"
    and label_value_check: "IsLabelValue V s = [] \<longleftrightarrow> label_value s"
    and config_map_key_check: "IsConfigMapKey V s = [] \<longleftrightarrow> config_map_key s"
    and dns1035_max: "DNS1035LabelMaxLength V = 63"

text \<open>The validators the contract describes, as an executable instance.\<close>

definition documented_check :: "(string \<Rightarrow> bool) \<Rightarrow> string \<Rightarrow> string list" where
  "documented_check ok s = (if ok s then [] else [''invalid''])"

definition documented_validators :: validators where
  "documented_validators = \<lparr>
     IsDNS1123Label = documented_check dns1123_label,
     IsDNS1123Subdomain = documented_check dns1123_subdomain,
     IsDNS1035Label = documented_check dns1035_label,
     IsLabelValue = documented_check label_value,
     IsConfigMapKey = documented_check config_map_key,
     DNS1035LabelMaxLength = 63\<rparr>"

interpretation dv: k8s_validation documented_validators
  by unfold_locales (auto simp: documented_validators_def documented_check_def)

lemmas char_class_defs = is_lower_def is_upper_def is_digit_def dns_char_def alnum_def
lemmas name_syntax_defs = char_class_defs dns1123_word_def dns1123_label_def dns1123_subdomain_def
  dns1035_label_def label_value_def config_map_key_def

section \<open>Derived names\<close>

lemma DeploymentName_inj: "DeploymentName a = DeploymentName b \<longleftrightarrow> a = b"
  by (simp add: DeploymentName_def)

lemma PrePullPodName_inj: "PrePullPodName a = PrePullPodName b \<longleftrightarrow> a = b"
  by (simp add: PrePullPodName_def)

lemma SplitChar_parts: "concat (SplitChar d s) = filter (\<lambda>c. c \<noteq> d) s"
  by (induction s) (auto split: list.splits)

lemma dns1123_subdomain_chars:
  assumes "dns1123_subdomain s" "c \<in> set s"
  shows "dns_char c \<or> c = CHR ''.''"
proof (rule disjCI)
  assume "c \<noteq> CHR ''.''"
  with assms(2) have "c \<in> set (concat (SplitChar CHR ''.'' s))"
    by (simp add: SplitChar_parts)
  then obtain w where "w \<in> set (SplitChar CHR ''.'' s)" "c \<in> set w" by auto
  with assms(1) show "dns_char c"
    by (auto simp: dns1123_subdomain_def dns1123_word_def list_all_iff)
qed

lemma hex_char_dns: "is_hex_char c \<Longrightarrow> dns_char c"
  by (auto simp: is_hex_char_def char_class_defs)

lemma set_dropWhile_subset: "set (dropWhile P xs) \<subseteq> set xs"
  by (auto dest: set_dropWhileD)

lemma TrimRightChar_subset: "set (TrimRightChar c s) \<subseteq> set s"
  unfolding TrimRightChar_def using set_dropWhile_subset [of _ "rev s"] by auto

lemma TrimRightChar_length: "length (TrimRightChar c s) \<le> length s"
  unfolding TrimRightChar_def by (metis length_dropWhile_le length_rev)

lemma TrimRightChar_hd: "s \<noteq> [] \<Longrightarrow> hd s \<noteq> c \<Longrightarrow> TrimRightChar c s \<noteq> [] \<and> hd (TrimRightChar c s) = hd s"
proof -
  assume s: "s \<noteq> []" "hd s \<noteq> c"
  have split: "s = TrimRightChar c s @ rev (takeWhile (\<lambda>d. d = c) (rev s))"
    unfolding TrimRightChar_def by (metis rev_append rev_rev_ident takeWhile_dropWhile_id)
  have ne: "TrimRightChar c s \<noteq> []"
  proof
    assume "TrimRightChar c s = []"
    then have "\<forall>d \<in> set s. d = c" by (simp add: TrimRightChar_def)
    with s show False by auto
  qed
  with split show ?thesis by (metis hd_append2)
qed

lemma lb_suffix_length: "length (''-'' @ hex_encode (take 6 (Sum256 n)) @ ''-lb'') = 16"
  by simp

lemma dns_char_literals [simp]:
  "dns_char CHR ''c''" "dns_char CHR ''a''" "dns_char CHR ''d''" "dns_char CHR ''y''"
  "dns_char CHR ''-''" "dns_char CHR ''l''" "dns_char CHR ''b''"
  by (simp_all add: char_class_defs)

lemma lb_prefix_chars:
  assumes "\<forall>c \<in> set n. dns_char c \<or> c = CHR ''.''"
  shows "\<forall>c \<in> set (DeploymentName (ReplaceChar CHR ''.'' CHR ''-'' n)). dns_char c"
  using assms by (auto simp: DeploymentName_def ReplaceChar_def)

lemma hashed_lb_name_valid:
  assumes chars: "\<forall>c \<in> set n. dns_char c \<or> c = CHR ''.''"
    and sfx: "length sfx = 16" "\<forall>c \<in> set sfx. dns_char c" "last sfx \<noteq> CHR ''-''"
    and pfx: "pfx = DeploymentName (ReplaceChar CHR ''.'' CHR ''-'' n)"
  shows "dns1035_label (TrimRightChar CHR ''-'' (take (min (length pfx) (63 - 16)) pfx) @ sfx)"
    (is "dns1035_label (?t @ sfx)")
proof -
  let ?p = "take (min (length pfx) (63 - 16)) pfx"
  have p: "?p \<noteq> []" "hd ?p = CHR ''c''"
    by (auto simp: pfx DeploymentName_def)
  then have t: "?t \<noteq> []" "hd ?t = CHR ''c''"
    using TrimRightChar_hd [of ?p "CHR ''-''"] by auto
  have "length ?t \<le> 47"
    using TrimRightChar_length [of "CHR ''-''" ?p] by simp
  moreover have "\<forall>c \<in> set ?t. dns_char c"
    using TrimRightChar_subset [of "CHR ''-''" ?p] set_take_subset [of _ pfx]
      lb_prefix_chars [OF chars] pfx by blast
  moreover have "sfx \<noteq> []" using sfx(1) by auto
  ultimately show ?thesis
    using sfx t by (simp add: dns1035_label_def list_all_iff) (auto simp: is_lower_def)
qed

text \<open>C28. For every node name that is a DNS-1123 subdomain (what Kubernetes admits as a node
  name), the name of the per-node LoadBalancer Service is a valid DNS-1035 label: at most 63
  characters, starting with a letter, not ending with a hyphen, also when the plain name has
  dots or is too long and the shortened name with a hash suffix is used.\<close>

theorem loadBalancerServiceName_valid:
  assumes V: "k8s_validation V"
    and node: "dns1123_subdomain n"
  shows "dns1035_label (loadBalancerServiceName V n)"
proof (cases "IsDNS1035Label V (DeploymentName n @ ''-loadbalancer'') = []")
  case True
  then show ?thesis
    using k8s_validation.dns1035_label_check [OF V] by (simp add: loadBalancerServiceName_def)
next
  case False
  let ?suffix = "''-'' @ hex_encode (take 6 (Sum256 n)) @ ''-lb''"
  have "\<forall>c \<in> set ?suffix. dns_char c"
    by (auto dest: hex_encode_chars hex_char_dns)
  with False show ?thesis
    using hashed_lb_name_valid [of n ?suffix] dns1123_subdomain_chars [OF node]
      k8s_validation.dns1035_max [OF V]
    by (simp add: loadBalancerServiceName_def Let_def)
qed

theorem loadBalancerServiceName_valid_witness:
  "k8s_validation documented_validators \<and> dns1123_subdomain ''worker.example.com'' \<and>
   dns1035_label (loadBalancerServiceName documented_validators ''worker.example.com'')"
proof -
  have n: "dns1123_subdomain ''worker.example.com''"
    by (simp add: name_syntax_defs)
  show ?thesis
    using n dv.k8s_validation_axioms loadBalancerServiceName_valid [OF dv.k8s_validation_axioms n]
    by simp
qed

definition plain_lb_name :: "validators \<Rightarrow> string \<Rightarrow> bool" where
  \<comment> \<open>the full Service name is admissible and needs no shortening\<close>
  "plain_lb_name V n \<longleftrightarrow> IsDNS1035Label V (DeploymentName n @ ''-loadbalancer'') = []"

lemma loadBalancerServiceName_cases:
  obtains (plain) "plain_lb_name V n" "loadBalancerServiceName V n = DeploymentName n @ ''-loadbalancer''"
  | (hashed) p where "\<not> plain_lb_name V n"
      "loadBalancerServiceName V n = p @ ''-'' @ hex_encode (take 6 (Sum256 n)) @ ''-lb''"
  by (cases "IsDNS1035Label V (DeploymentName n @ ''-loadbalancer'') = []")
    (auto simp: loadBalancerServiceName_def plain_lb_name_def Let_def)

lemma plain_ne_hashed: "DeploymentName n @ ''-loadbalancer'' \<noteq> p @ ''-'' @ h @ ''-lb''"
proof
  assume "DeploymentName n @ ''-loadbalancer'' = p @ ''-'' @ h @ ''-lb''"
  then have "last (DeploymentName n @ ''-loadbalancer'') = last (p @ ''-'' @ h @ ''-lb'')" by simp
  then show False by simp
qed

text \<open>C29. Two nodes share a LoadBalancer Service name only if both names have to be shortened and
  the first six bytes of the SHA-256 digests of the node names collide: full names are
  injective, a full name never equals a shortened one, and equal shortened names carry equal
  digests.\<close>

theorem loadBalancerServiceName_inj:
  assumes "a \<noteq> b"
    and "plain_lb_name V a \<or> plain_lb_name V b \<or> take 6 (Sum256 a) \<noteq> take 6 (Sum256 b)"
  shows "loadBalancerServiceName V a \<noteq> loadBalancerServiceName V b"
proof (cases rule: loadBalancerServiceName_cases [of V a])
  case plain
  with assms(1) show ?thesis
    by (cases rule: loadBalancerServiceName_cases [of V b])
      (auto simp: DeploymentName_def dest: plain_ne_hashed [unfolded DeploymentName_def, THEN notE])
next
  case a: (hashed p)
  show ?thesis
  proof (cases rule: loadBalancerServiceName_cases [of V b])
    case plain
    with a plain_ne_hashed show ?thesis by metis
  next
    case (hashed q)
    let ?s = "\<lambda>n. ''-'' @ hex_encode (take 6 (Sum256 n)) @ ''-lb''"
    have "p @ ?s a = q @ ?s b \<longleftrightarrow> p = q \<and> ?s a = ?s b"
      by (rule append_eq_append_conv) simp
    moreover have "?s a \<noteq> ?s b" using assms(2) a(1) hashed(1) by (auto dest: hex_encode_inj)
    ultimately show ?thesis using a hashed by simp
  qed
qed

theorem loadBalancerServiceName_inj_witness:
  "plain_lb_name documented_validators ''node1'' \<and>
   loadBalancerServiceName documented_validators ''node1'' \<noteq>
     loadBalancerServiceName documented_validators ''worker.example.com''"
proof -
  have "plain_lb_name documented_validators ''node1''"
    by (simp add: plain_lb_name_def DeploymentName_def dv.dns1035_label_check dns1035_label_def char_class_defs)
  with loadBalancerServiceName_inj [of "''node1''" "''worker.example.com''" documented_validators] show ?thesis
    by simp
qed

section \<open>Labels of the managed objects\<close>

lemma ManagedLabels_eq:
  "ManagedLabels n = [(labelApp, labelAppValue), (labelInstance, n), (labelCaddyManaged, labelManagedValue)]"
  by (simp add: ManagedLabels_def selectorLabels_def map_put_def label_consts)

lemma map_get_ManagedLabels [simp]:
  "map_get (ManagedLabels n) labelApp = Some labelAppValue"
  "map_get (ManagedLabels n) labelInstance = Some n"
  "map_get (ManagedLabels n) labelCaddyManaged = Some labelManagedValue"
  by (simp_all add: ManagedLabels_eq map_get_def label_consts)

lemma selects_ManagedLabels:
  "selects (ManagedLabels n) ls \<longleftrightarrow>
     map_get ls labelApp = Some labelAppValue \<and> map_get ls labelInstance = Some n \<and>
     map_get ls labelCaddyManaged = Some labelManagedValue"
  by (auto simp: selects_def ManagedLabels_eq)

lemma selected_by_one_node:
  "selects (ManagedLabels n) ls \<Longrightarrow> selects (ManagedLabels m) ls \<Longrightarrow> m = n"
  by (simp add: selects_ManagedLabels)

lemma ManagedNodeName_selected:
  "selects (ManagedLabels n) (Labels obj) \<Longrightarrow> ManagedNodeName obj = n"
  by (simp add: selects_ManagedLabels ManagedNodeName_def map_str_def)

end
