(* ===== verification/Netip.thy ===== *)
theory Netip
  imports Naming
begin

text \<open>
  The parts of \<^verbatim>\<open>net\<close> and \<^verbatim>\<open>net/netip\<close> that \<^verbatim>\<open>cmd/manager/main.go\<close> calls: \<^verbatim>\<open>net.ParseIP\<close>,
  \<^verbatim>\<open>IP.IsGlobalUnicast\<close> and \<^verbatim>\<open>IP.String\<close>. An address is the 16 bytes \<^verbatim>\<open>ParseIP\<close> returns; an
  IPv4 address is the mapped one, \<open>::ffff:a.b.c.d\<close>. The byte loops of the parser are kept, with
  their error exits as \<open>None\<close>. Shown: a parsed address has 16 bytes, and parsing the printed form
  of an address gives the address back.
\<close>

section \<open>Parsing\<close>

definition digit_val :: "char \<Rightarrow> nat" where
  "digit_val c = of_char c - 48"

fun ipv4_loop :: "string \<Rightarrow> bool \<Rightarrow> nat \<Rightarrow> nat \<Rightarrow> byte list \<Rightarrow> byte list option" where
  \<comment> \<open>the loop of \<open>parseIPv4Fields\<close>; \<open>dot\<close>: at the start or after a dot\<close>
  "ipv4_loop [] dot val digLen octets =
     (if length octets < 3 then None else Some (octets @ [word_of_nat val]))"
| "ipv4_loop (c # s) dot val digLen octets =
     (if is_digit c then
        (if digLen = 1 \<and> val = 0 then None
         else if val * 10 + digit_val c > 255 then None
         else ipv4_loop s False (val * 10 + digit_val c) (digLen + 1) octets)
      else if c = CHR ''.'' then
        (if dot \<or> s = [] then None
         else if length octets = 3 then None
         else ipv4_loop s True 0 0 (octets @ [word_of_nat val]))
      else None)"

definition parseIPv4Fields :: "string \<Rightarrow> byte list option" where
  "parseIPv4Fields s = ipv4_loop s True 0 0 []"

definition hex_val :: "char \<Rightarrow> nat option" where
  "hex_val c =
     (if is_digit c then Some (of_char c - 48)
      else if c \<in> set ''abcdef'' then Some (of_char c - 97 + 10)
      else if c \<in> set ''ABCDEF'' then Some (of_char c - 65 + 10)
      else None)"

fun hex_run :: "string \<Rightarrow> nat \<Rightarrow> nat \<Rightarrow> (nat \<times> nat \<times> string) option" where
  \<comment> \<open>the hexadecimal field loop of \<open>parseIPv6\<close>: value, number of digits, rest\<close>
  "hex_run [] off acc = Some (acc, off, [])"
| "hex_run (c # s) off acc =
     (case hex_val c of
        None \<Rightarrow> Some (acc, off, c # s)
      | Some d \<Rightarrow> if off > 3 then None
                  else if acc * 16 + d > 65535 then None
                  else hex_run s (off + 1) (acc * 16 + d))"

definition put_uint16 :: "nat \<Rightarrow> byte list" where
  "put_uint16 n = [word_of_nat (n div 256), word_of_nat n]"

lemma length_put_uint16 [simp]: "length (put_uint16 n) = 2"
  by (simp add: put_uint16_def)

function v6_loop :: "string \<Rightarrow> byte list \<Rightarrow> nat option \<Rightarrow> (byte list \<times> nat option \<times> string) option" where
  \<comment> \<open>the field loop of \<open>parseIPv6\<close> on the rest of the text, \<open>ip[:i]\<close> and the position of \<open>::\<close>\<close>
  "v6_loop s ip ellipsis =
     (if length ip \<ge> 16 then Some (ip, ellipsis, s)
      else case hex_run s 0 0 of
        None \<Rightarrow> None
      | Some (acc, off, rest) \<Rightarrow>
          if off = 0 then None
          else if take 1 rest = ''.'' then
            (if ellipsis = None \<and> length ip \<noteq> 12 then None
             else if length ip + 4 > 16 then None
             else case parseIPv4Fields s of
                    None \<Rightarrow> None
                  | Some octets \<Rightarrow> Some (ip @ octets, ellipsis, []))
          else
            (case rest of
               [] \<Rightarrow> Some (ip @ put_uint16 acc, ellipsis, [])
             | c # t \<Rightarrow>
                 if c \<noteq> CHR '':'' \<or> t = [] then None
                 else if hd t = CHR '':'' then
                   (if ellipsis \<noteq> None then None
                    else if tl t = [] then Some (ip @ put_uint16 acc, Some (length ip + 2), [])
                    else v6_loop (tl t) (ip @ put_uint16 acc) (Some (length ip + 2)))
                 else v6_loop t (ip @ put_uint16 acc) ellipsis))"
  by pat_completeness auto
termination
  by (relation "measure (\<lambda>(s, ip, ellipsis). 16 - length ip)") auto

declare v6_loop.simps [simp del]

definition parseIPv6 :: "string \<Rightarrow> byte list option" where
  \<comment> \<open>a zone, empty or not, makes \<open>net.ParseIP\<close> fail\<close>
  "parseIPv6 s =
     (if CHR ''%'' \<in> set s then None
      else if s = ''::'' then Some (replicate 16 0)
      else
        let leading = take 2 s = ''::'' in
        case v6_loop (if leading then drop 2 s else s) [] (if leading then Some 0 else None) of
          None \<Rightarrow> None
        | Some (ip, ellipsis, rest) \<Rightarrow>
            if rest \<noteq> [] then None
            else if length ip < 16 then
              (case ellipsis of
                 None \<Rightarrow> None
               | Some e \<Rightarrow> Some (take e ip @ replicate (16 - length ip) 0 @ drop e ip))
            else if ellipsis \<noteq> None then None
            else Some ip)"

definition v4InV6Prefix :: "byte list" where
  "v4InV6Prefix = replicate 10 0 @ [255, 255]"

definition ParseIP :: "string \<Rightarrow> byte list option" where
  \<comment> \<open>\<open>netip.ParseAddr\<close> looks for the first dot, colon or percent sign\<close>
  "ParseIP s =
     (case List.find (\<lambda>c. c \<in> set ''.:%'') s of
        None \<Rightarrow> None
      | Some c \<Rightarrow>
          if c = CHR ''.'' then map_option (\<lambda>octets. v4InV6Prefix @ octets) (parseIPv4Fields s)
          else if c = CHR '':'' then parseIPv6 s
          else None)"

section \<open>Classes of addresses\<close>

definition To4 :: "byte list \<Rightarrow> byte list option" where
  "To4 ip = (if take 12 ip = v4InV6Prefix then Some (drop 12 ip) else None)"

definition IsUnspecified :: "byte list \<Rightarrow> bool" where
  "IsUnspecified ip \<longleftrightarrow> ip = v4InV6Prefix @ [0, 0, 0, 0] \<or> ip = replicate 16 0"

definition IsLoopback :: "byte list \<Rightarrow> bool" where
  "IsLoopback ip \<longleftrightarrow> (case To4 ip of Some ip4 \<Rightarrow> ip4 ! 0 = 127 | None \<Rightarrow> ip = replicate 15 0 @ [1])"

definition IsMulticast :: "byte list \<Rightarrow> bool" where
  "IsMulticast ip \<longleftrightarrow> (case To4 ip of Some ip4 \<Rightarrow> ip4 ! 0 AND 0xf0 = 0xe0 | None \<Rightarrow> ip ! 0 = 0xff)"

definition IsLinkLocalUnicast :: "byte list \<Rightarrow> bool" where
  "IsLinkLocalUnicast ip \<longleftrightarrow>
     (case To4 ip of
        Some ip4 \<Rightarrow> ip4 ! 0 = 169 \<and> ip4 ! 1 = 254
      | None \<Rightarrow> ip ! 0 = 0xfe \<and> ip ! 1 AND 0xc0 = 0x80)"

definition IsGlobalUnicast :: "byte list \<Rightarrow> bool" where
  "IsGlobalUnicast ip \<longleftrightarrow>
     ip \<noteq> v4InV6Prefix @ [255, 255, 255, 255] \<and> \<not> IsUnspecified ip \<and> \<not> IsLoopback ip \<and>
     \<not> IsMulticast ip \<and> \<not> IsLinkLocalUnicast ip"

section \<open>Printing\<close>

fun v6u16 :: "byte list \<Rightarrow> nat list" where
  \<comment> \<open>the 16-bit groups\<close>
  "v6u16 (a # b # ip) = (unat a * 256 + unat b) # v6u16 ip"
| "v6u16 _ = []"

definition appendHex :: "nat \<Rightarrow> string" where
  "appendHex x =
     (if x \<ge> 0x1000 then [hex_digit (x div 0x1000 mod 16)] else []) @
     (if x \<ge> 0x100 then [hex_digit (x div 0x100 mod 16)] else []) @
     (if x \<ge> 0x10 then [hex_digit (x div 0x10 mod 16)] else []) @
     [hex_digit (x mod 16)]"

definition zeros_at :: "nat list \<Rightarrow> nat \<Rightarrow> nat" where
  "zeros_at gs i = length (takeWhile (\<lambda>g. g = 0) (drop i gs))"

definition zero_run :: "nat list \<Rightarrow> nat \<times> nat" where
  \<comment> \<open>start and length of the longest run of at least two zero groups, the first such; length 0 if none\<close>
  "zero_run gs = fold (\<lambda>i (start, len).
     if zeros_at gs i \<ge> 2 \<and> zeros_at gs i > len then (i, zeros_at gs i) else (start, len)) [0..<8] (255, 0)"

definition fields_String :: "nat list \<Rightarrow> string" where
  "fields_String gs = Join (map appendHex gs) '':''"

definition string6 :: "nat list \<Rightarrow> string" where
  "string6 gs =
     (let (start, len) = zero_run gs in
      if len = 0 then fields_String gs
      else fields_String (take start gs) @ ''::'' @ fields_String (drop (start + len) gs))"

definition IP_String :: "byte list \<Rightarrow> string" where
  "IP_String ip =
     (case To4 ip of
        Some ip4 \<Rightarrow> Join (map (\<lambda>b. Itoa (unat b)) ip4) ''.''
      | None \<Rightarrow> string6 (v6u16 ip))"

section \<open>Shape of parsed addresses\<close>

lemma ipv4_loop_length: "ipv4_loop s dot val n octs = Some r \<Longrightarrow> length octs \<le> 3 \<Longrightarrow> length r = 4"
  by (induction s dot val n octs rule: ipv4_loop.induct) (auto split: if_splits)

lemma parseIPv4Fields_length: "parseIPv4Fields s = Some r \<Longrightarrow> length r = 4"
  unfolding parseIPv4Fields_def by (erule ipv4_loop_length) simp

lemma v6_loop_full: "length ip \<ge> 16 \<Longrightarrow> v6_loop s ip e = Some (ip, e, s)"
  by (subst v6_loop.simps) (rule if_P)

definition v6_next :: "string \<Rightarrow> byte list \<Rightarrow> nat option \<Rightarrow> nat \<Rightarrow> string \<Rightarrow> (byte list \<times> nat option \<times> string) option" where
  \<comment> \<open>the loop after a hexadecimal field of value \<open>acc\<close> that is followed by \<open>rest\<close>\<close>
  "v6_next s ip e acc rest =
     (if take 1 rest = ''.'' then
        (if e = None \<and> length ip \<noteq> 12 \<or> length ip + 4 > 16 then None
         else map_option (\<lambda>octs. (ip @ octs, e, [])) (parseIPv4Fields s))
      else if rest = [] then Some (ip @ put_uint16 acc, e, [])
      else if hd rest \<noteq> CHR '':'' \<or> tl rest = [] then None
      else if hd (tl rest) \<noteq> CHR '':'' then v6_loop (tl rest) (ip @ put_uint16 acc) e
      else if e \<noteq> None then None
      else if tl (tl rest) = [] then Some (ip @ put_uint16 acc, Some (length ip + 2), [])
      else v6_loop (tl (tl rest)) (ip @ put_uint16 acc) (Some (length ip + 2)))"

lemma v6_loop_step:
  assumes "length ip < 16"
  shows "v6_loop s ip e = (case hex_run s 0 0 of None \<Rightarrow> None
           | Some (acc, off, rest) \<Rightarrow> if off = 0 then None else v6_next s ip e acc rest)"
proof (cases "hex_run s 0 0")
  case None
  with assms show ?thesis by (subst v6_loop.simps) simp
next
  case (Some a)
  obtain acc off rest where a: "a = (acc, off, rest)" by (cases a)
  with assms Some show ?thesis
    by (subst v6_loop.simps, cases rest) (simp_all add: v6_next_def split: option.split)
qed

lemma v6_loop_cases:
  assumes "v6_loop s ip e = Some (ip', e', r)"
  obtains (full) "length ip \<ge> 16" "ip' = ip"
  | (embedded) octs where "length ip + 4 \<le> 16" "length octs = 4" "ip' = ip @ octs"
  | (stop) acc where "length ip < 16" "ip' = ip @ put_uint16 acc"
  | (more) acc s2 e2 where "length ip < 16" "v6_loop s2 (ip @ put_uint16 acc) e2 = Some (ip', e', r)"
proof (cases "length ip \<ge> 16")
  case True
  with assms have "ip' = ip" by (simp add: v6_loop_full)
  with True show thesis by (rule full)
next
  case False
  then have room: "length ip < 16" by simp
  with assms obtain acc rest where "v6_next s ip e acc rest = Some (ip', e', r)"
    by (auto simp: v6_loop_step split: option.splits if_splits)
  then show thesis
    using embedded stop [OF room] more [OF room]
    by (auto simp: v6_next_def dest: parseIPv4Fields_length split: if_splits)
qed

lemma v6_loop_length:
  assumes "v6_loop s ip e = Some (ip', e', r)" "even (length ip)" "length ip \<le> 16"
  shows "length ip' \<le> 16"
  using assms
proof (induction "16 - length ip" arbitrary: s ip e rule: less_induct)
  case less
  have room: "length ip < 16 \<Longrightarrow> length ip + 2 \<le> 16" using less.prems(2) by presburger
  from less.prems(1) show ?case
  proof (cases rule: v6_loop_cases)
    case (more acc s2 e2)
    then show ?thesis using less.hyps [OF _ more(2)] less.prems(2) room by simp
  qed (use less.prems room in auto)
qed

lemma parseIPv6_length: "parseIPv6 s = Some ip \<Longrightarrow> length ip = 16"
  by (auto simp: parseIPv6_def Let_def split: option.splits if_splits prod.splits
      dest!: v6_loop_length)

lemma ParseIP_length: "ParseIP s = Some ip \<Longrightarrow> length ip = 16"
  by (auto simp: ParseIP_def v4InV6Prefix_def split: option.splits if_splits
      dest: parseIPv4Fields_length parseIPv6_length)

section \<open>Decimal and hexadecimal fields\<close>

lemma digit_table:
  "list_all (\<lambda>n. is_digit (char_of (48 + n)) \<and> digit_val (char_of (48 + n)) = n) [0 ..< 10]"
  by code_simp

lemma hex_table: "list_all (\<lambda>n. hex_val (hex_digit n) = Some n) [0 ..< 16]"
  by code_simp

lemma digit_char:
  "n < 10 \<Longrightarrow> is_digit (char_of (48 + n))" "n < 10 \<Longrightarrow> digit_val (char_of (48 + n)) = n"
  using digit_table by (auto simp: list_all_iff)

lemma hex_val_digit: "n < 16 \<Longrightarrow> hex_val (hex_digit n) = Some n"
  using hex_table by (auto simp: list_all_iff)

lemma Itoa_octet:
  "n < 256 \<Longrightarrow> Itoa n =
     (if n < 10 then [char_of (48 + n)]
      else if n < 100 then [char_of (48 + n div 10), char_of (48 + n mod 10)]
      else [char_of (48 + n div 100), char_of (48 + n div 10 mod 10), char_of (48 + n mod 10)])"
  by (subst Itoa.simps, subst Itoa.simps, subst Itoa.simps) (auto simp: div_mult2_eq [symmetric])

lemma ipv4_loop_digit:
  assumes "m < 256" "k = 1 \<Longrightarrow> m div 10 \<noteq> 0"
  shows "ipv4_loop (char_of (48 + m mod 10) # s) dot (m div 10) k octs = ipv4_loop s False m (Suc k) octs"
  using assms by (auto simp: digit_char)

lemma ipv4_loop_octet:
  assumes "n < 256"
  shows "\<exists>k. ipv4_loop (Itoa n @ s) dot 0 0 octs = ipv4_loop s False n k octs"
proof -
  have div: "n div 10 div 10 = n div 100" by (simp add: div_mult2_eq [symmetric])
  consider "n < 10" | "10 \<le> n" "n < 100" | "100 \<le> n" by linarith
  then show ?thesis
  proof cases
    case 1
    then show ?thesis using ipv4_loop_digit [of n 0 s dot octs] by (auto simp: Itoa_octet)
  next
    case 2
    then have "ipv4_loop (Itoa n @ s) dot 0 0 octs = ipv4_loop s False n 2 octs"
      using ipv4_loop_digit [of "n div 10" 0 "char_of (48 + n mod 10) # s" dot octs]
        ipv4_loop_digit [of n 1 s False octs] assms
      by (simp add: Itoa_octet numeral_2_eq_2 del: ipv4_loop.simps)
    then show ?thesis ..
  next
    case 3
    let ?a = "char_of (48 + n div 10 mod 10)" and ?b = "char_of (48 + n mod 10)"
    from 3 have "ipv4_loop (Itoa n @ s) dot 0 0 octs = ipv4_loop s False n 3 octs"
      using ipv4_loop_digit [of "n div 100" 0 "?a # ?b # s" dot octs]
        ipv4_loop_digit [of "n div 10" 1 "?b # s" False octs] ipv4_loop_digit [of n 2 s False octs] assms
      by (simp add: Itoa_octet div numeral_2_eq_2 numeral_3_eq_3 del: ipv4_loop.simps)
    then show ?thesis ..
  qed
qed

lemma hex_run_digit:
  assumes "m < 65536" "k \<le> 3"
  shows "hex_run (hex_digit (m mod 16) # s) k (m div 16) = hex_run s (Suc k) m"
  using assms by (simp add: hex_val_digit)

lemma hex_run_appendHex:
  assumes "n < 65536" "rest = [] \<or> hex_val (hd rest) = None"
  shows "\<exists>k > 0. hex_run (appendHex n @ rest) 0 0 = Some (n, k, rest)"
proof -
  have stop: "hex_run rest (Suc k) n = Some (n, Suc k, rest)" for k
    using assms(2) by (cases rest) auto
  have div: "n div 16 div 16 = n div 256" "n div 256 div 16 = n div 4096"
    by (simp_all add: div_mult2_eq [symmetric])
  have small: "n div 4096 < 16" "n < 4096 \<Longrightarrow> n div 256 < 16" "n < 256 \<Longrightarrow> n div 16 < 16"
    using assms(1) by auto
  note step = hex_run_digit [OF le_less_trans [OF div_le_dividend assms(1)]] hex_run_digit [OF assms(1)]
  let ?d = "\<lambda>j. hex_digit (n div j mod 16)" and ?l = "hex_digit (n mod 16)"
  have "hex_run (appendHex n @ rest) 0 0 = hex_run rest (length (appendHex n)) n"
  proof (cases "n < 256")
    case low: True
    show ?thesis
    proof (cases "n < 16")
      case True
      then show ?thesis using step(2) [of 0 rest] by (simp add: appendHex_def del: hex_run.simps)
    next
      case False
      then show ?thesis using low small step(1) [of 0 16 "?l # rest"] step(2) [of 1 rest]
        by (simp add: appendHex_def del: hex_run.simps)
    qed
  next
    case high: False
    show ?thesis
    proof (cases "n < 4096")
      case True
      then show ?thesis
        using high small step(1) [of 0 256 "?d 16 # ?l # rest"] step(1) [of 1 16 "?l # rest"] step(2) [of 2 rest]
        by (simp add: appendHex_def div numeral_2_eq_2 del: hex_run.simps)
    next
      case False
      then show ?thesis
        using small step(1) [of 0 4096 "?d 256 # ?d 16 # ?l # rest"] step(1) [of 1 256 "?d 16 # ?l # rest"]
          step(1) [of 2 16 "?l # rest"] step(2) [of 3 rest]
        by (simp add: appendHex_def div numeral_2_eq_2 numeral_3_eq_3 del: hex_run.simps)
    qed
  qed
  moreover obtain k where "length (appendHex n) = Suc k" by (simp add: appendHex_def)
  ultimately show ?thesis using stop by auto
qed

section \<open>Parsing what was printed\<close>

lemma Join_Cons: "Join (x # xs) sep = x @ (if xs = [] then [] else sep @ Join xs sep)"
  by (cases xs) simp_all

lemma Join4: "Join [a, b, c, d] sep = a @ sep @ b @ sep @ c @ sep @ d"
  by simp

lemma Itoa_nonempty: "Itoa n \<noteq> []"
  by (subst Itoa.simps) simp

lemma ipv4_loop_field:
  assumes "n < 256" "length octs < 3" "s \<noteq> []"
  shows "ipv4_loop (Itoa n @ CHR ''.'' # s) dot 0 0 octs = ipv4_loop s True 0 0 (octs @ [word_of_nat n])"
proof -
  obtain k where "ipv4_loop (Itoa n @ CHR ''.'' # s) dot 0 0 octs = ipv4_loop (CHR ''.'' # s) False n k octs"
    using ipv4_loop_octet [OF assms(1)] by blast
  then show ?thesis using assms by (simp add: is_digit_def)
qed

lemma ipv4_loop_last:
  assumes "n < 256" "length octs = 3"
  shows "ipv4_loop (Itoa n) dot 0 0 octs = Some (octs @ [word_of_nat n])"
  using ipv4_loop_octet [OF assms(1), of "[]" dot octs] assms(2) by auto

lemma unat_byte: "unat (b :: byte) < 256"
proof -
  have "unat b < 2 ^ LENGTH(8)" by (rule unsigned_less)
  then show ?thesis by simp
qed

lemma parseIPv4Fields_String:
  "parseIPv4Fields (Join (map (\<lambda>b. Itoa (unat b)) [a, b, c, d]) ''.'') = Some [a, b, c, d]"
  unfolding parseIPv4Fields_def
  by (simp add: ipv4_loop_field ipv4_loop_last Itoa_nonempty unat_byte)

lemma appendHex_hex: "c \<in> set (appendHex n) \<Longrightarrow> is_hex_char c"
  by (auto simp: appendHex_def hex_digit_is_hex split: if_splits)

lemma appendHex_nonempty [simp]: "appendHex n \<noteq> []"
  by (simp add: appendHex_def)

lemma hd_hex: "is_hex_char (hd (appendHex n))"
  using appendHex_hex hd_in_set appendHex_nonempty by blast

lemma hex_char_other [simp]: "\<not> is_hex_char CHR '':''" "\<not> is_hex_char CHR ''.''" "\<not> is_hex_char CHR ''%''"
  by (simp_all add: is_hex_char_def)

lemma fields_String_Cons:
  "fields_String (g # gs) = appendHex g @ (if gs = [] then [] else CHR '':'' # fields_String gs)"
  by (simp add: fields_String_def Join_Cons)

lemma fields_String_hd: "gs \<noteq> [] \<Longrightarrow> fields_String gs \<noteq> [] \<and> hd (fields_String gs) \<noteq> CHR '':''"
  using hd_hex [of "hd gs"] by (cases gs) (auto simp: fields_String_Cons)

lemma fields_String_chars: "c \<in> set (fields_String gs) \<Longrightarrow> is_hex_char c \<or> c = CHR '':''"
  by (induction gs) (auto simp: fields_String_Cons fields_String_def [of "[]"] appendHex_hex split: if_splits)

lemma hex_val_colon: "hex_val CHR '':'' = None"
  by (simp add: hex_val_def is_digit_def)

definition groups_bytes :: "nat list \<Rightarrow> byte list" where
  "groups_bytes gs = concat (map put_uint16 gs)"

lemma groups_bytes_simps [simp]:
  "groups_bytes [] = []" "groups_bytes (g # gs) = put_uint16 g @ groups_bytes gs"
  "groups_bytes (gs @ hs) = groups_bytes gs @ groups_bytes hs"
  by (simp_all add: groups_bytes_def)

lemma length_groups_bytes [simp]: "length (groups_bytes gs) = 2 * length gs"
  by (induction gs) simp_all

lemma v6_loop_field:
  assumes "length ip < 16" "g < 65536" "rest = [] \<or> hd rest = CHR '':''"
  shows "v6_loop (appendHex g @ rest) ip e = v6_next (appendHex g @ rest) ip e g rest"
proof -
  have "rest = [] \<or> hex_val (hd rest) = None" using assms(3) hex_val_colon by auto
  then obtain k where "k > 0" "hex_run (appendHex g @ rest) 0 0 = Some (g, k, rest)"
    using hex_run_appendHex [OF assms(2)] by blast
  then show ?thesis using assms(1) by (simp add: v6_loop_step)
qed

lemma v6_loop_fields:
  assumes "gs \<noteq> []" "\<forall>g \<in> set gs. g < 65536" "length ip + 2 * length gs \<le> 16"
  shows "v6_loop (fields_String gs) ip e = Some (ip @ groups_bytes gs, e, [])"
  using assms
proof (induction gs arbitrary: ip)
  case (Cons g gs)
  show ?case
  proof (cases "gs = []")
    case True
    with Cons.prems show ?thesis using v6_loop_field [of ip g "[]" e]
      by (simp add: fields_String_Cons v6_next_def)
  next
    case False
    with Cons.prems Cons.IH [of "ip @ put_uint16 g"] show ?thesis
      using v6_loop_field [of ip g "CHR '':'' # fields_String gs" e] fields_String_hd [of gs]
      by (simp add: fields_String_Cons v6_next_def)
  qed
qed simp

lemma v6_loop_ellipsis:
  assumes "gs \<noteq> []" "\<forall>g \<in> set gs. g < 65536" "length ip + 2 * length gs \<le> 16"
  shows "v6_loop (fields_String gs @ CHR '':'' # CHR '':'' # t) ip None =
     (let ip' = ip @ groups_bytes gs in
      if t = [] then Some (ip', Some (length ip'), []) else v6_loop t ip' (Some (length ip')))"
  using assms
proof (induction gs arbitrary: ip)
  case (Cons g gs)
  show ?case
  proof (cases "gs = []")
    case True
    with Cons.prems show ?thesis using v6_loop_field [of ip g "CHR '':'' # CHR '':'' # t" None]
      by (simp add: fields_String_Cons v6_next_def)
  next
    case False
    with Cons.prems Cons.IH [of "ip @ put_uint16 g"] show ?thesis
      using v6_loop_field [of ip g "CHR '':'' # fields_String gs @ CHR '':'' # CHR '':'' # t" None] fields_String_hd [of gs]
      by (simp add: fields_String_Cons v6_next_def Let_def)
  qed
qed simp

lemma zeros_at_zero: "take (zeros_at gs i) (drop i gs) = replicate (zeros_at gs i) 0"
proof -
  let ?zs = "takeWhile (\<lambda>g. g = 0) (drop i gs)"
  have "take (zeros_at gs i) (drop i gs) = ?zs"
    unfolding zeros_at_def by (metis takeWhile_eq_take)
  moreover have "?zs = replicate (length ?zs) 0"
    by (rule replicate_eqI) (auto dest: set_takeWhileD)
  ultimately show ?thesis by (simp add: zeros_at_def)
qed

lemma zeros_at_bound: "zeros_at gs i \<le> length gs - i"
  unfolding zeros_at_def by (metis length_drop length_takeWhile_le)

lemma zero_run_zeros:
  assumes "zero_run gs = (start, len)"
  shows "len = 0 \<or> 2 \<le> len \<and> len = zeros_at gs start"
proof -
  let ?P = "\<lambda>(start, len). len = 0 \<or> 2 \<le> len \<and> len = zeros_at gs start"
  have "?P (zero_run gs)"
    unfolding zero_run_def by (rule fold_invariant [where Q = "\<lambda>_. True"]) (auto split: prod.splits)
  with assms show ?thesis by simp
qed

lemma string6_split:
  obtains (fields) "string6 gs = fields_String gs"
  | (ellipsis) as n bs where "gs = as @ replicate n 0 @ bs" "2 \<le> n"
      "string6 gs = fields_String as @ ''::'' @ fields_String bs"
proof -
  obtain start len where run: "zero_run gs = (start, len)" by fastforce
  show thesis
  proof (cases "len = 0")
    case True
    with run fields show thesis by (simp add: string6_def)
  next
    case False
    with zero_run_zeros [OF run] have len: "2 \<le> len" "len = zeros_at gs start" by auto
    have "gs = take start gs @ take len (drop start gs) @ drop (start + len) gs"
      by (metis append_take_drop_id drop_drop add.commute)
    then have "gs = take start gs @ replicate len 0 @ drop (start + len) gs"
      using zeros_at_zero [of gs start] len(2) by simp
    with len(1) run ellipsis False show thesis by (simp add: string6_def)
  qed
qed

lemma groups_bytes_zeros: "groups_bytes (replicate n 0) = replicate (2 * n) 0"
  by (induction n) (simp_all add: put_uint16_def)

lemma put_uint16_bytes: "put_uint16 (unat a * 256 + unat b) = [a, b :: byte]"
proof -
  have "word_of_nat (unat a * 256 + unat b) = (b :: byte)"
  proof -
    have "(256 :: byte) = 0" by simp
    then have "a * 256 = 0" by (metis mult_zero_right)
    then show ?thesis by simp
  qed
  then show ?thesis using unat_byte [of b] by (simp add: put_uint16_def)
qed

lemma groups_bytes_v6u16: "even (length ip) \<Longrightarrow> groups_bytes (v6u16 ip) = ip"
  by (induction ip rule: v6u16.induct) (simp_all add: put_uint16_bytes)

lemma v6u16_bound: "g \<in> set (v6u16 ip) \<Longrightarrow> g < 65536"
proof (induction ip rule: v6u16.induct)
  case (1 a b ip)
  then show ?case using unat_byte [of a] unat_byte [of b] by auto
qed simp_all

lemma length_v6u16 [simp]: "length (v6u16 ip) = length ip div 2"
  by (induction ip rule: v6u16.induct) auto

lemma v6_loop_fields_any:
  assumes "\<forall>g \<in> set gs. g < 65536" "length ip + 2 * length gs \<le> 16" "fields_String gs \<noteq> []"
  shows "v6_loop (fields_String gs) ip e = Some (ip @ groups_bytes gs, e, [])"
  using assms v6_loop_fields [of gs ip e] by (cases gs) (auto simp: fields_String_def)

lemma string6_no_percent: "CHR ''%'' \<notin> set (string6 gs)"
  by (cases rule: string6_split [of gs]) (auto dest: fields_String_chars)

lemma parseIPv6_string6:
  assumes "length gs = 8" "\<forall>g \<in> set gs. g < 65536"
  shows "parseIPv6 (string6 gs) = Some (groups_bytes gs)"
proof (cases rule: string6_split [of gs])
  case fields
  have gs: "gs \<noteq> []" using assms(1) by auto
  have hd: "hd (fields_String gs) \<noteq> CHR '':''" using fields_String_hd [of gs] gs by simp
  then have "take 2 (fields_String gs) \<noteq> ''::''" "fields_String gs \<noteq> ''::''"
    by (cases "fields_String gs"; simp add: numeral_2_eq_2)+
  moreover have "v6_loop (fields_String gs) [] None = Some (groups_bytes gs, None, [])"
    using v6_loop_fields [of gs "[]" None] assms gs by simp
  ultimately show ?thesis
    using assms string6_no_percent [of gs] by (simp add: parseIPv6_def fields)
next
  case (ellipsis as n bs)
  let ?s = "fields_String as @ ''::'' @ fields_String bs"
  have len: "length as + n + length bs = 8" using assms(1) ellipsis(1) by simp
  have small: "\<forall>g \<in> set as. g < 65536" "\<forall>g \<in> set bs. g < 65536" using assms(2) ellipsis(1) by auto
  have zeros: "groups_bytes gs = groups_bytes as @ replicate (2 * n) 0 @ groups_bytes bs"
    by (simp add: ellipsis(1) groups_bytes_zeros)
  have expand: "16 - (2 * length as + 2 * length bs) = 2 * n" "2 * length as + 2 * length bs < 16"
    using len ellipsis(2) by simp_all
  have pct: "CHR ''%'' \<notin> set ?s" using string6_no_percent [of gs] ellipsis(3) by simp
  show ?thesis
  proof (cases "as = []")
    case True
    show ?thesis
    proof (cases "bs = []")
      case True
      with \<open>as = []\<close> show ?thesis using ellipsis(3) zeros len
        by (simp add: parseIPv6_def fields_String_def)
    next
      case False
      have "v6_loop (fields_String bs) [] (Some 0) = Some (groups_bytes bs, Some 0, [])"
        using v6_loop_fields [of bs "[]" "Some 0"] False small len ellipsis(2) by simp
      with True False show ?thesis using ellipsis(3) zeros expand pct fields_String_hd [of bs]
        by (simp add: parseIPv6_def fields_String_def [of "[]"])
    qed
  next
    case False
    have hd: "hd ?s \<noteq> CHR '':''" using fields_String_hd [OF False] by simp
    then have lead: "take 2 ?s \<noteq> ''::''" "?s \<noteq> ''::''" by (cases ?s; simp add: numeral_2_eq_2)+
    have "v6_loop ?s [] None = Some (groups_bytes as @ groups_bytes bs, Some (2 * length as), [])"
      using v6_loop_ellipsis [of as "[]" "fields_String bs"] v6_loop_fields_any [of bs "groups_bytes as"]
        False small len
      by (cases "bs = []") (auto simp: Let_def fields_String_def [of "[]"] dest: fields_String_hd)
    with lead show ?thesis using ellipsis(3) zeros expand pct by (simp add: parseIPv6_def)
  qed
qed

lemma string6_chars: "c \<in> set (string6 gs) \<Longrightarrow> is_hex_char c \<or> c = CHR '':''"
  by (cases rule: string6_split [of gs]) (auto dest: fields_String_chars)

lemma string6_colon: "2 \<le> length gs \<Longrightarrow> CHR '':'' \<in> set (string6 gs)"
proof (cases rule: string6_split [of gs])
  assume "2 \<le> length gs"
  then obtain a b rest where "gs = a # b # rest" by (cases gs rule: remdups_adj.cases) auto
  moreover case fields
  ultimately show ?thesis by (simp add: fields_String_Cons)
qed simp

lemma find_marker:
  assumes "\<And>c. c \<in> set s \<Longrightarrow> P c \<Longrightarrow> c = d" "d \<in> set s" "P d"
  shows "List.find P s = Some d"
  using assms
proof (induction s)
  case (Cons x s)
  show ?case
  proof (cases "P x")
    case True
    with Cons.prems(1) [of x] show ?thesis by simp
  next
    case False
    have "d \<in> set s" using Cons.prems(2,3) False by auto
    then have "List.find P s = Some d" by (rule Cons.IH [rotated]) (simp_all add: Cons.prems(1) Cons.prems(3))
    with False show ?thesis by simp
  qed
qed simp

lemma Itoa_octet_digits:
  assumes "n < 256" "c \<in> set (Itoa n)"
  shows "is_digit c"
proof -
  have "n div 100 < 10" "n div 10 mod 10 < 10" "n < 100 \<Longrightarrow> n div 10 < 10" using assms(1) by auto
  with assms show ?thesis by (auto simp: Itoa_octet digit_char split: if_splits)
qed

lemma dotted_chars:
  "c \<in> set (Join (map (\<lambda>b. Itoa (unat (b :: byte))) bs) ''.'') \<Longrightarrow> is_digit c \<or> c = CHR ''.''"
  by (induction bs) (auto simp: Join_Cons dest: Itoa_octet_digits [OF unat_byte] split: if_splits)

lemma ParseIP_String:
  assumes "length ip = 16"
  shows "ParseIP (IP_String ip) = Some ip"
proof (cases "To4 ip")
  case None
  let ?gs = "v6u16 ip"
  have "List.find (\<lambda>c. c \<in> set ''.:%'') (string6 ?gs) = Some CHR '':''"
    using string6_colon [of ?gs] assms by (intro find_marker) (auto dest!: string6_chars)
  moreover have "parseIPv6 (string6 ?gs) = Some ip"
    using parseIPv6_string6 [of ?gs] groups_bytes_v6u16 [of ip] v6u16_bound assms by auto
  ultimately show ?thesis using None by (simp add: ParseIP_def IP_String_def)
next
  case (Some ip4)
  then have ip: "ip = v4InV6Prefix @ ip4" "length ip4 = 4"
    using assms by (auto simp: To4_def split: if_splits) (metis append_take_drop_id)
  then obtain a b c d where ip4: "ip4 = [a, b, c, d]" by (auto simp: numeral_eq_Suc length_Suc_conv)
  let ?s = "Join (map (\<lambda>b. Itoa (unat b)) ip4) ''.''"
  have "\<not> is_digit CHR '':''" "\<not> is_digit CHR ''%''" by (simp_all add: is_digit_def)
  then have "c = CHR ''.''" if "c \<in> set ?s" "c \<in> set ''.:%''" for c
    using dotted_chars [OF that(1)] that(2) by auto
  then have "List.find (\<lambda>c. c \<in> set ''.:%'') ?s = Some CHR ''.''"
    by (rule find_marker) (simp_all add: ip4)
  moreover have "parseIPv4Fields ?s = Some ip4" using parseIPv4Fields_String unfolding ip4 by blast
  ultimately show ?thesis using Some ip by (simp add: ParseIP_def IP_String_def)
qed

lemma IP_String_chars:
  assumes "c \<in> set (IP_String ip)"
  shows "is_hex_char c \<or> c = CHR '':'' \<or> c = CHR ''.''"
proof -
  have "is_digit c \<Longrightarrow> is_hex_char c" by (auto simp: is_digit_def is_hex_char_def)
  with assms show ?thesis
    by (auto simp: IP_String_def split: option.splits dest: string6_chars dotted_chars)
qed

lemma IP_String_inj: "length a = 16 \<Longrightarrow> length b = 16 \<Longrightarrow> IP_String a = IP_String b \<longleftrightarrow> a = b"
  by (metis ParseIP_String option.inject)

end
