(* ===== verification/Admin.thy ===== *)
theory Admin
  imports Kube
begin

text \<open>
  \<^verbatim>\<open>pkg/caddy/admin.go\<close>: the client of Caddy's admin API. The HTTP exchange with a
  Caddy instance is a parameter \<open>http_do\<close> on an arbitrary state of the outside world, and
  \<open>admin_env\<close> bundles it with URL parsing and JSON decoding of Caddy's answers. Shown are
  what a successful load has sent and checked, what a rejected configuration leaves undone,
  and how status codes are classified.
\<close>

section \<open>Constants and the bootstrap Caddyfile\<close>

definition adminPort :: nat where "adminPort = 2019"
definition errorBodyLimit :: nat where "errorBodyLimit = 1024"
definition adminListen :: string where "adminListen = '':'' @ Itoa adminPort"

record admin =
  originKey :: string
  forceReload :: bool

definition NewAdmin :: "string \<Rightarrow> bool \<Rightarrow> admin" where
  "NewAdmin key force = \<lparr>originKey = key, forceReload = force\<rparr>"

definition adminOrigin :: "string \<Rightarrow> string" where
  "adminOrigin key = ''http://'' @ key @ ''.caddy-admin-api.ckic.cmld.ru''"

definition BootstrapCaddyfile :: "admin \<Rightarrow> string" where
  "BootstrapCaddyfile a =
     (if originKey a = [] then
        ''{'' @ nl @ tab @ ''admin '' @ adminListen @ nl @ ''}'' @ nl
      else
        ''{'' @ nl @ tab @ ''admin '' @ adminListen @ '' {'' @ nl @
        tab @ tab @ ''origins '' @ adminOrigin (originKey a) @ nl @
        tab @ tab @ ''enforce_origin'' @ nl @ tab @ ''}'' @ nl @ ''}'' @ nl)"

section \<open>Requests and answers\<close>

record http_request =
  ReqURL :: string
  ReqPath :: string
  ReqHeaders :: "string gomap"
  ReqBody :: string

datatype http_result =
    RequestFailed string
  | ReadFailed string
  | Response nat string

record admin_section =
  Listen :: string
  EnforceOrigin :: bool
  Origins :: "string list"

record 's admin_env =
  http_do :: "http_request \<Rightarrow> 's \<Rightarrow> http_result \<times> 's"
  url_valid :: "string \<Rightarrow> bool"
  decode_adaptation :: "string \<Rightarrow> string + string"
  decode_admin :: "string \<Rightarrow> string + admin_section"

definition JoinHostPort :: "string \<Rightarrow> string \<Rightarrow> string" where
  \<comment> \<open>\<open>net.JoinHostPort\<close>: a host with a colon is bracketed\<close>
  "JoinHostPort host port =
     (if CHR '':'' \<in> set host then ''['' @ host @ '']:'' @ port else host @ '':'' @ port)"

definition newRequest ::
  "'s admin_env \<Rightarrow> admin \<Rightarrow> string \<Rightarrow> string \<Rightarrow> string \<Rightarrow> string \<Rightarrow> error + http_request" where
  "newRequest E a base path contentType body =
     (if \<not> url_valid E (base @ path) then Inl (ErrHttp (base @ path) ''invalid URL'')
      else
        let hs = [(''Content-Type'', contentType)];
            hs = (if originKey a \<noteq> [] then map_put ''Origin'' (adminOrigin (originKey a)) hs else hs)
        in Inr \<lparr>ReqURL = base @ path, ReqPath = path, ReqHeaders = hs, ReqBody = body\<rparr>)"

definition do_request :: "'s admin_env \<Rightarrow> http_request \<Rightarrow> 's \<Rightarrow> (error + string) \<times> 's" where
  "do_request E req w =
     (case http_do E req w of
        (RequestFailed m, w') \<Rightarrow> (Inl (ErrHttp (ReqPath req) m), w')
      | (ReadFailed m, w') \<Rightarrow> (Inl (ErrHttp (ReqPath req) m), w')
      | (Response code body, w') \<Rightarrow>
          if 200 \<le> code \<and> code < 300 then (Inr body, w')
          else
            let failure = ''caddy '' @ ReqPath req @ '' returned HTTP '' @ Itoa code @ '': '' @
                          take (min (length body) errorBodyLimit) body
            in if 400 \<le> code \<and> code < 500 then (Inl (ErrConfigRejected failure), w')
               else (Inl (ErrMsg failure), w'))"

definition checkAdminReachable :: "'s admin_env \<Rightarrow> admin \<Rightarrow> string \<Rightarrow> error option" where
  "checkAdminReachable E a config =
     (case decode_admin E config of
        Inl m \<Rightarrow> Some (ErrMsg (''invalid adapted Caddy config: '' @ m))
      | Inr adm \<Rightarrow>
          if Listen adm \<noteq> adminListen then
            Some (ErrConfigRejected (''merged Caddyfile must keep the admin endpoint on '' @ adminListen))
          else if originKey a = [] \<and> EnforceOrigin adm then
            Some (ErrConfigRejected ''merged Caddyfile enforces an admin origin, but no origin key is configured'')
          else if originKey a \<noteq> [] \<and> adminOrigin (originKey a) \<notin> set (Origins adm) then
            Some (ErrConfigRejected (''merged Caddyfile must allow the admin origin '' @ adminOrigin (originKey a)))
          else None)"

definition admin_url :: "string \<Rightarrow> string" where
  "admin_url podIP = ''http://'' @ JoinHostPort podIP (Itoa adminPort)"

definition set_cache_control :: "admin \<Rightarrow> http_request \<Rightarrow> http_request" where
  "set_cache_control a req =
     (if forceReload a
      then req\<lparr>ReqHeaders := map_put ''Cache-Control'' ''must-revalidate'' (ReqHeaders req)\<rparr> else req)"

definition Load :: "'s admin_env \<Rightarrow> admin \<Rightarrow> string \<Rightarrow> string \<Rightarrow> 's \<Rightarrow> error option \<times> 's" where
  "Load E a podIP caddyfile w =
     (let adminURL = admin_url podIP in
      case newRequest E a adminURL ''/adapt'' ''text/caddyfile'' caddyfile of
        Inl e \<Rightarrow> (Some e, w)
      | Inr adaptRequest \<Rightarrow>
          (case do_request E adaptRequest w of
             (Inl e, w1) \<Rightarrow> (Some e, w1)
           | (Inr body, w1) \<Rightarrow>
               (case decode_adaptation E body of
                  Inl m \<Rightarrow> (Some (ErrMsg (''invalid Caddy adaptation response: '' @ m)), w1)
                | Inr result \<Rightarrow>
                    (case checkAdminReachable E a result of
                       Some e \<Rightarrow> (Some e, w1)
                     | None \<Rightarrow>
                         (case newRequest E a adminURL ''/load'' ''application/json'' result of
                            Inl e \<Rightarrow> (Some e, w1)
                          | Inr loadRequest \<Rightarrow>
                              (case do_request E (set_cache_control a loadRequest) w1 of
                                 (Inl e, w2) \<Rightarrow> (Some e, w2)
                               | (Inr _, w2) \<Rightarrow> (None, w2)))))))"

definition is_config_rejected :: "error \<Rightarrow> bool" where
  \<comment> \<open>\<open>errors.Is(err, ErrConfigRejected)\<close>\<close>
  "is_config_rejected e = (case e of ErrConfigRejected _ \<Rightarrow> True | _ \<Rightarrow> False)"

section \<open>What is sent, and when\<close>

definition reachable_by :: "admin \<Rightarrow> admin_section \<Rightarrow> bool" where
  \<comment> \<open>after loading, the manager can still talk to the admin endpoint\<close>
  "reachable_by a adm \<longleftrightarrow>
     Listen adm = adminListen \<and>
     (if originKey a = [] then \<not> EnforceOrigin adm else adminOrigin (originKey a) \<in> set (Origins adm))"

lemma adminListen_eq: "adminListen = '':2019''"
  by code_simp

lemma checkAdminReachable_None:
  "checkAdminReachable E a c = None \<longleftrightarrow> (\<exists>adm. decode_admin E c = Inr adm \<and> reachable_by a adm)"
  by (auto simp: checkAdminReachable_def reachable_by_def split: sum.splits)

lemma checkAdminReachable_rejects:
  "decode_admin E c = Inr adm \<Longrightarrow> \<not> reachable_by a adm \<Longrightarrow>
     \<exists>m. checkAdminReachable E a c = Some (ErrConfigRejected m)"
  by (auto simp: checkAdminReachable_def reachable_by_def split: if_splits)

lemma newRequest_Inr:
  "newRequest E a base path ct body = Inr r \<Longrightarrow>
     ReqPath r = path \<and> ReqBody r = body \<and> ReqURL r = base @ path \<and>
     map_get (ReqHeaders r) ''Content-Type'' = Some ct \<and>
     map_get (ReqHeaders r) ''Origin'' = (if originKey a = [] then None else Some (adminOrigin (originKey a)))"
  by (auto simp: newRequest_def Let_def map_get_def map_put_def split: if_splits)

lemma set_cache_control_simps [simp]:
  "ReqPath (set_cache_control a r) = ReqPath r"
  "ReqBody (set_cache_control a r) = ReqBody r"
  "ReqURL (set_cache_control a r) = ReqURL r"
  "k \<noteq> ''Cache-Control'' \<Longrightarrow> map_get (ReqHeaders (set_cache_control a r)) k = map_get (ReqHeaders r) k"
  by (auto simp: set_cache_control_def)

text \<open>A log of the requests a run sends: the same environment, with the history as ghost state.\<close>

definition logging :: "'s admin_env \<Rightarrow> ('s \<times> http_request list) admin_env" where
  "logging E = \<lparr>
     http_do = (\<lambda>r (w, rs). let (x, w') = http_do E r w in (x, (w', rs @ [r]))),
     url_valid = url_valid E, decode_adaptation = decode_adaptation E, decode_admin = decode_admin E\<rparr>"

lemma logging_simps [simp]:
  "url_valid (logging E) = url_valid E" "decode_adaptation (logging E) = decode_adaptation E"
  "decode_admin (logging E) = decode_admin E"
  by (simp_all add: logging_def)

lemma newRequest_logging [simp]: "newRequest (logging E) = newRequest E"
  by (intro ext) (simp add: newRequest_def)

lemma checkAdminReachable_logging [simp]: "checkAdminReachable (logging E) = checkAdminReachable E"
  by (intro ext) (simp add: checkAdminReachable_def)

lemma do_request_logging:
  "do_request (logging E) r (w, rs) =
     (fst (do_request E r w), (snd (do_request E r w), rs @ [r]))"
  by (cases "http_do E r w"; cases "fst (http_do E r w)")
    (auto simp: do_request_def logging_def Let_def)

lemma Load_log_cases:
  assumes "Load (logging E) a ip cf (w, []) = (res, (w', rs))"
  obtains (none) "rs = []" "res \<noteq> None"
  | (adapt) r where "rs = [r]" "newRequest E a (admin_url ip) ''/adapt'' ''text/caddyfile'' cf = Inr r"
      "res \<noteq> None"
  | (load) r q result where "rs = [r, set_cache_control a q]"
      "newRequest E a (admin_url ip) ''/adapt'' ''text/caddyfile'' cf = Inr r"
      "newRequest E a (admin_url ip) ''/load'' ''application/json'' result = Inr q"
      "checkAdminReachable E a result = None"
      "\<exists>body w1. do_request E r w = (Inr body, w1) \<and> decode_adaptation E body = Inr result \<and>
         (res = None \<longleftrightarrow> (\<exists>b w2. do_request E (set_cache_control a q) w1 = (Inr b, w2)))"
proof (cases "newRequest E a (admin_url ip) ''/adapt'' ''text/caddyfile'' cf")
  case (Inl e)
  with assms none show thesis by (auto simp: Load_def Let_def)
next
  case r: (Inr r)
  obtain x w1 where x: "do_request E r w = (x, w1)" by fastforce
  show thesis
  proof (cases "\<exists>body result q. x = Inr body \<and> decode_adaptation E body = Inr result \<and>
      checkAdminReachable E a result = None \<and>
      newRequest E a (admin_url ip) ''/load'' ''application/json'' result = Inr q")
    case True
    then obtain body result q where b: "x = Inr body" "decode_adaptation E body = Inr result"
      "checkAdminReachable E a result = None"
      "newRequest E a (admin_url ip) ''/load'' ''application/json'' result = Inr q" by blast
    obtain y w2 where y: "do_request E (set_cache_control a q) w1 = (y, w2)" by fastforce
    show thesis
      by (rule load [of r q result])
        (use assms r x b y in \<open>auto simp: Load_def Let_def do_request_logging split: sum.splits\<close>)
  next
    case False
    show thesis
      by (rule adapt [of r])
        (use assms r x False in \<open>auto simp: Load_def Let_def do_request_logging
           split: sum.splits option.splits dest: sym [of "Some _"]\<close>)
  qed
qed

text \<open>C9. A configuration that would make the admin endpoint unreachable for the manager is
  never posted to \<^verbatim>\<open>/load\<close>: the requests of one \<^verbatim>\<open>Load\<close> are at most an adapt request that
  carries the Caddyfile, followed by at most one load request, and the body of a load request
  always keeps the admin listener on port 2019 and the manager's origin admitted.\<close>

theorem Load_never_locks_out:
  assumes "Load (logging E) a ip cf (w, []) = (res, (w', rs))" and "r \<in> set rs"
  shows "ReqPath r = ''/adapt'' \<and> ReqBody r = cf \<or>
         ReqPath r = ''/load'' \<and> (\<exists>adm. decode_admin E (ReqBody r) = Inr adm \<and> reachable_by a adm)"
  using assms(1)
proof (cases rule: Load_log_cases)
  case (load q p result)
  then obtain adm where "decode_admin E result = Inr adm" "reachable_by a adm"
    by (auto simp: checkAdminReachable_None)
  with load assms(2) show ?thesis
    by (auto dest!: newRequest_Inr)
qed (use assms(2) in \<open>auto dest!: newRequest_Inr\<close>)

text \<open>A Caddy instance that answers 200 to everything, for evaluating the client.\<close>

definition caddy_ok :: "admin_section \<Rightarrow> unit admin_env" where
  "caddy_ok adm = \<lparr>
     http_do = (\<lambda>r w. (Response 200 (ReqBody r), w)), url_valid = (\<lambda>_. True),
     decode_adaptation = Inr, decode_admin = (\<lambda>_. Inr adm)\<rparr>"

lemmas load_eval = Load_def newRequest_def do_request_def checkAdminReachable_def caddy_ok_def
  logging_def set_cache_control_def admin_url_def NewAdmin_def JoinHostPort_def Let_def

theorem Load_never_locks_out_witness:
  "let E = caddy_ok \<lparr>Listen = adminListen, EnforceOrigin = False, Origins = []\<rparr>;
       a = NewAdmin '''' False; out = Load (logging E) a ''192.0.2.1'' ''config'' ((), []);
       r = last (snd (snd out))
   in fst out = None \<and> ReqPath r = ''/load'' \<and>
      (ReqPath r = ''/adapt'' \<and> ReqBody r = ''config'' \<or>
       ReqPath r = ''/load'' \<and> (\<exists>adm. decode_admin E (ReqBody r) = Inr adm \<and> reachable_by a adm))"
proof -
  let ?E = "caddy_ok \<lparr>Listen = adminListen, EnforceOrigin = False, Origins = []\<rparr>"
  let ?a = "NewAdmin '''' False"
  obtain res w' rs where out: "Load (logging ?E) ?a ''192.0.2.1'' ''config'' ((), []) = (res, (w', rs))"
    by (metis prod.exhaust)
  then have rs: "res = None" "length rs = 2" "ReqPath (last rs) = ''/load''"
    by (auto simp: load_eval)
  then have "last rs \<in> set rs" by (auto intro: last_in_set)
  from Load_never_locks_out [OF out this] show ?thesis
    using out rs by (simp add: Let_def)
qed

lemma do_request_rejected:
  "do_request E r w = (Inl e, w') \<Longrightarrow> is_config_rejected e \<Longrightarrow>
     \<exists>code body. http_do E r w = (Response code body, w') \<and> 400 \<le> code \<and> code < 500"
  by (auto simp: do_request_def Let_def is_config_rejected_def split: prod.splits http_result.splits if_splits)

text \<open>C38. A failed \<^verbatim>\<open>Load\<close> counts as a rejected configuration (which the controller does not
  retry) only for one of three reasons: Caddy answered the adapt request with a 4xx status, the
  adapted configuration would lock the manager out, or Caddy answered the load request with a
  4xx status. Transport failures, unreadable answers and server errors are never rejections.\<close>

theorem Load_rejected_causes:
  assumes "Load E a ip cf w = (Some e, w')" and "is_config_rejected e"
  shows "(\<exists>r code body. ReqPath r = ''/adapt'' \<and> ReqBody r = cf \<and>
            http_do E r w = (Response code body, w') \<and> 400 \<le> code \<and> code < 500) \<or>
         (\<exists>r body result adm. ReqPath r = ''/adapt'' \<and> ReqBody r = cf \<and>
            do_request E r w = (Inr body, w') \<and> decode_adaptation E body = Inr result \<and>
            decode_admin E result = Inr adm \<and> \<not> reachable_by a adm) \<or>
         (\<exists>r w1 code body. ReqPath r = ''/load'' \<and>
            http_do E r w1 = (Response code body, w') \<and> 400 \<le> code \<and> code < 500)"
proof -
  obtain r where r: "newRequest E a (admin_url ip) ''/adapt'' ''text/caddyfile'' cf = Inr r"
    using assms by (cases "newRequest E a (admin_url ip) ''/adapt'' ''text/caddyfile'' cf")
      (auto simp: Load_def Let_def newRequest_def is_config_rejected_def split: if_splits)
  then have path: "ReqPath r = ''/adapt''" "ReqBody r = cf" by (auto dest: newRequest_Inr)
  obtain x w1 where x: "do_request E r w = (x, w1)" by fastforce
  show ?thesis
  proof (cases x)
    case (Inl e')
    with assms r x have "e' = e" "w1 = w'" by (auto simp: Load_def Let_def)
    with Inl x assms(2) path show ?thesis by (blast dest: do_request_rejected)
  next
    case (Inr body)
    then obtain result where result: "decode_adaptation E body = Inr result"
      using assms r x by (cases "decode_adaptation E body") (auto simp: Load_def Let_def is_config_rejected_def)
    show ?thesis
    proof (cases "checkAdminReachable E a result")
      case (Some e')
      with assms r x Inr result have e: "e' = e" "w1 = w'" by (auto simp: Load_def Let_def)
      with Some assms(2) obtain adm where "decode_admin E result = Inr adm" "\<not> reachable_by a adm"
        by (auto simp: checkAdminReachable_def reachable_by_def is_config_rejected_def
            split: sum.splits if_splits)
      with e x Inr result path show ?thesis by blast
    next
      case None
      then obtain q where q: "newRequest E a (admin_url ip) ''/load'' ''application/json'' result = Inr q"
        using assms r x Inr result
        by (cases "newRequest E a (admin_url ip) ''/load'' ''application/json'' result")
          (auto simp: Load_def Let_def newRequest_def is_config_rejected_def split: if_splits)
      then have "ReqPath (set_cache_control a q) = ''/load''" by (auto dest: newRequest_Inr)
      moreover have "do_request E (set_cache_control a q) w1 = (Inl e, w')"
        using assms(1) r x Inr result None q by (auto simp: Load_def Let_def split: prod.splits sum.splits)
      ultimately show ?thesis using assms(2) by (blast dest: do_request_rejected)
    qed
  qed
qed

theorem Load_rejected_causes_witness:
  "let E = caddy_ok \<lparr>Listen = ''localhost:2019'', EnforceOrigin = False, Origins = []\<rparr>;
       a = NewAdmin '''' False
   in \<exists>e. Load E a ''192.0.2.1'' ''config'' () = (Some e, ()) \<and> is_config_rejected e \<and>
        (\<exists>r body result adm. ReqPath r = ''/adapt'' \<and> ReqBody r = ''config'' \<and>
            do_request E r () = (Inr body, ()) \<and> decode_adaptation E body = Inr result \<and>
            decode_admin E result = Inr adm \<and> \<not> reachable_by a adm)"
proof -
  let ?E = "caddy_ok \<lparr>Listen = ''localhost:2019'', EnforceOrigin = False, Origins = []\<rparr>"
  let ?a = "NewAdmin '''' False"
  obtain e where e: "Load ?E ?a ''192.0.2.1'' ''config'' () = (Some e, ())" "is_config_rejected e"
    by (simp add: load_eval adminListen_eq is_config_rejected_def)
  from Load_rejected_causes [OF e] have
    "\<exists>r body result adm. ReqPath r = ''/adapt'' \<and> ReqBody r = ''config'' \<and>
       do_request ?E r () = (Inr body, ()) \<and> decode_adaptation ?E body = Inr result \<and>
       decode_admin ?E result = Inr adm \<and> \<not> reachable_by ?a adm"
    by (auto simp: caddy_ok_def)
  with e show ?thesis by (auto simp: Let_def)
qed

end
