(* ===== verification/Podspec.thy ===== *)
theory Podspec
  imports Naming Admin
begin

text \<open>
  The first half of \<^verbatim>\<open>pkg/caddy/deployment.go\<close>: the deploy options and their
  validation, and the apply configurations of the Deployment, its pod template and the
  per-node LoadBalancer Service. The JSON encoding of a pod template (client-go's types) and
  the Unicode case tables are parameters, \<open>marshal\<close> and \<open>ToLower\<close>.
\<close>

section \<open>Constants\<close>

definition CaddyfileKey :: string where "CaddyfileKey = ''Caddyfile''"
definition caddyBinary :: string where "caddyBinary = ''caddy''"
definition caddyContainerName :: string where "caddyContainerName = caddyBinary"
definition fieldManager :: string where "fieldManager = ''ckic''"
definition volumeNameCaddyConfig :: string where "volumeNameCaddyConfig = ''caddy-config''"
definition volumeNameData :: string where "volumeNameData = ''opt-data''"
definition volumeNameConfig :: string where "volumeNameConfig = ''opt-config''"
definition ciliumNodeLoadBalancerClass :: string where "ciliumNodeLoadBalancerClass = ''io.cilium/node''"
definition adminProbePath :: string where "adminProbePath = ''/config/admin/listen''"
definition readinessProbePath :: string where "readinessProbePath = ''/config/apps/http/http_port''"
definition probeTimeoutSeconds :: int32 where "probeTimeoutSeconds = 3"
definition startupProbePeriodSeconds :: int32 where "startupProbePeriodSeconds = 3"
definition startupProbeFailureThreshold :: int32 where "startupProbeFailureThreshold = 30"
definition livenessProbePeriodSeconds :: int32 where "livenessProbePeriodSeconds = 20"
definition livenessProbeFailureThreshold :: int32 where "livenessProbeFailureThreshold = 3"
definition readinessProbePeriodSeconds :: int32 where "readinessProbePeriodSeconds = 10"
definition readinessProbeFailureThreshold :: int32 where "readinessProbeFailureThreshold = 3"

record trafficPort =
  tp_name :: string
  tp_port :: int32
  tp_protocol :: protocol

definition trafficPorts :: "trafficPort list" where
  "trafficPorts =
     [\<lparr>tp_name = ''http-tcp'', tp_port = 80, tp_protocol = ProtocolTCP\<rparr>,
      \<lparr>tp_name = ''http-udp'', tp_port = 80, tp_protocol = ProtocolUDP\<rparr>,
      \<lparr>tp_name = ''https-tcp'', tp_port = 443, tp_protocol = ProtocolTCP\<rparr>,
      \<lparr>tp_name = ''https-udp'', tp_port = 443, tp_protocol = ProtocolUDP\<rparr>]"

definition podFieldEnvVars :: "(string \<times> string) list" where
  "podFieldEnvVars =
     [(''CKIC_POD_NAME'', ''metadata.name''),
      (''CKIC_NODE_NAME'', ''spec.nodeName''),
      (''CKIC_POD_IP'', ''status.podIP'')]"

section \<open>Deploy options\<close>

record deploy_options =
  Namespace :: string
  BootConfigMapName :: string
  CaddyImage :: string
  ImagePullPolicy :: string
  PrePullImage :: bool
  EnableCiliumLB :: bool
  UseHostNetwork :: bool
  EnvSecretName :: string
  EnvSecretKeys :: "string list"
  DataVolumePVC :: string
  ConfigVolumePVC :: string
  CaddyAdminOriginKey :: string

fun validate_optional :: "(string \<times> string \<times> (string \<Rightarrow> string list)) list \<Rightarrow> error option" where
  "validate_optional [] = None"
| "validate_optional ((kind, name, check) # rest) =
     (if name = [] then validate_optional rest
      else case ValidateName kind name check of
             Some e \<Rightarrow> Some e
           | None \<Rightarrow> validate_optional rest)"

fun validate_env_keys :: "validators \<Rightarrow> bool gomap \<Rightarrow> string list \<Rightarrow> error option" where
  "validate_env_keys V envKeys [] = None"
| "validate_env_keys V envKeys (key # keys) =
     (if map_get envKeys key = Some True then
        Some (ErrMsg (''duplicate or reserved environment key '' @ key))
      else case ValidateName ''environment key'' key (IsConfigMapKey V) of
             Some e \<Rightarrow> Some e
           | None \<Rightarrow> validate_env_keys V (map_put key True envKeys) keys)"

definition Validate :: "validators \<Rightarrow> (string \<Rightarrow> string) \<Rightarrow> deploy_options \<Rightarrow> error option" where
  "Validate V ToLower opts =
     (if UseHostNetwork opts \<and> EnableCiliumLB opts then
        Some (ErrMsg ''cannot combine host networking with the cilium loadbalancer'')
      else if length (EnvSecretKeys opts) > 0 \<and> EnvSecretName opts = [] then
        Some (ErrMsg ''environment keys require an environment secret'')
      else
        case validate_optional
               [(''environment secret name'', EnvSecretName opts, IsDNS1123Subdomain V),
                (''data PVC name'', DataVolumePVC opts, IsDNS1123Subdomain V),
                (''config PVC name'', ConfigVolumePVC opts, IsDNS1123Subdomain V)] of
          Some e \<Rightarrow> Some e
        | None \<Rightarrow>
            let errs = (if CaddyAdminOriginKey opts \<noteq> []
                        then IsDNS1123Subdomain V (ToLower (CaddyAdminOriginKey opts)) else [])
            in if length errs > 0 then Some (ErrMsg (''invalid admin origin key: '' @ Join errs ''; ''))
               else
                 let envKeys = fold (\<lambda>(name, _). map_put name True) podFieldEnvVars []
                 in validate_env_keys V envKeys (EnvSecretKeys opts))"

definition applyOptions :: apply_options where
  "applyOptions = \<lparr>FieldManager = fieldManager, Force = True\<rparr>"

section \<open>Apply configurations\<close>

definition nodeNameAffinity :: "string \<Rightarrow> node_requirement list" where
  "nodeNameAffinity nodeName =
     [\<lparr>ReqKey = ObjectNameField, ReqOperator = NodeSelectorOpIn, ReqValues = [nodeName]\<rparr>]"

definition adminProbe :: "string \<Rightarrow> string \<Rightarrow> int32 \<Rightarrow> int32 \<Rightarrow> probe" where
  "adminProbe key path periodSeconds failureThreshold =
     \<lparr>ProbePath = path, ProbePort = of_nat adminPort, ProbeScheme = URISchemeHTTP,
      ProbeHeaders = (if key \<noteq> [] then [(''Origin'', adminOrigin key)] else []),
      PeriodSeconds = periodSeconds, TimeoutSeconds = probeTimeoutSeconds,
      FailureThreshold = failureThreshold\<rparr>"

definition caddyEnvVars :: "deploy_options \<Rightarrow> env_var list" where
  "caddyEnvVars opts =
     map (\<lambda>key. \<lparr>EnvName = key, EnvValueFrom = SecretKeyRef (EnvSecretName opts) key\<rparr>) (EnvSecretKeys opts) @
     map (\<lambda>(name, fieldPath). \<lparr>EnvName = name, EnvValueFrom = FieldRef fieldPath\<rparr>) podFieldEnvVars"

definition storageVolume :: "string \<Rightarrow> string \<Rightarrow> string \<Rightarrow> volume" where
  "storageVolume name pvcName hostPath =
     (if pvcName \<noteq> [] then \<lparr>VolName = name, VolSource = PVCVolume pvcName\<rparr>
      else \<lparr>VolName = name, VolSource = HostPathVolume hostPath HostPathDirectoryOrCreate\<rparr>)"

definition caddyVolumes :: "deploy_options \<Rightarrow> volume list" where
  "caddyVolumes opts =
     [\<lparr>VolName = volumeNameCaddyConfig,
       VolSource = ConfigMapVolume (BootConfigMapName opts) [(CaddyfileKey, CaddyfileKey)]\<rparr>,
      storageVolume volumeNameData (DataVolumePVC opts) ''/opt/cmld/caddy/data'',
      storageVolume volumeNameConfig (ConfigVolumePVC opts) ''/opt/cmld/caddy/config'']"

definition caddyContainer :: "deploy_options \<Rightarrow> container_apply" where
  "caddyContainer opts =
     \<lparr>CaName = caddyContainerName, CaImage = CaddyImage opts, CaPullPolicy = ImagePullPolicy opts,
      CaCommand = [],
      CaPorts =
        \<lparr>PortName = ''admin'', ContainerPort = of_nat adminPort, PortProtocol = ProtocolTCP, HostPort = None\<rparr> #
        map (\<lambda>traffic. \<lparr>PortName = tp_name traffic, ContainerPort = tp_port traffic,
              PortProtocol = tp_protocol traffic,
              HostPort = (if UseHostNetwork opts then Some (tp_port traffic) else None)\<rparr>) trafficPorts,
      CaMounts =
        [\<lparr>MountName = volumeNameCaddyConfig, MountPath = ''/etc/caddy/Caddyfile'',
          SubPath = Some CaddyfileKey, MountReadOnly = Some True\<rparr>,
         \<lparr>MountName = volumeNameData, MountPath = ''/data'', SubPath = None, MountReadOnly = None\<rparr>,
         \<lparr>MountName = volumeNameConfig, MountPath = ''/config'', SubPath = None, MountReadOnly = None\<rparr>],
      CaEnv = caddyEnvVars opts,
      CaStartup = Some (adminProbe (CaddyAdminOriginKey opts) adminProbePath
        startupProbePeriodSeconds startupProbeFailureThreshold),
      CaLiveness = Some (adminProbe (CaddyAdminOriginKey opts) adminProbePath
        livenessProbePeriodSeconds livenessProbeFailureThreshold),
      CaReadiness = Some (adminProbe (CaddyAdminOriginKey opts) readinessProbePath
        readinessProbePeriodSeconds readinessProbeFailureThreshold),
      CaSecurity =
        \<lparr>AllowPrivilegeEscalation = Some False, RunAsNonRoot = False, RunAsUser = None, RunAsGroup = None,
         CapAdd = [''NET_ADMIN'', ''NET_BIND_SERVICE''], CapDrop = [''ALL''],
         Seccomp = SeccompRuntimeDefault\<rparr>\<rparr>"

definition podTemplateApplyConfig :: "deploy_options \<Rightarrow> string \<Rightarrow> pod_template" where
  "podTemplateApplyConfig opts nodeName =
     (let podSpec =
        \<lparr>NodeAffinity = nodeNameAffinity nodeName, AutomountServiceAccountToken = False,
         PodSecurity =
           \<lparr>AllowPrivilegeEscalation = None, RunAsNonRoot = False, RunAsUser = None, RunAsGroup = None,
            CapAdd = [], CapDrop = [], Seccomp = SeccompRuntimeDefault\<rparr>,
         SpecContainers = [caddyContainer opts], SpecVolumes = caddyVolumes opts,
         DNSPolicy = Some DNSClusterFirst, HostNetwork = None, RestartPolicy = None\<rparr>;
          podSpec =
        (if UseHostNetwork opts
         then podSpec\<lparr>HostNetwork := Some True, DNSPolicy := Some DNSClusterFirstWithHostNet\<rparr>
         else podSpec)
      in \<lparr>TplLabels = ManagedLabels nodeName, TplSpec = podSpec\<rparr>)"

definition templateHash :: "(pod_template \<Rightarrow> string) \<Rightarrow> pod_template \<Rightarrow> string" where
  "templateHash marshal template =
     (let encoded = marshal template; digest = Sum256 encoded in hex_encode (take 8 digest))"

definition TemplateHash :: "(pod_template \<Rightarrow> string) \<Rightarrow> deploy_options \<Rightarrow> string \<Rightarrow> string" where
  "TemplateHash marshal opts nodeName = templateHash marshal (podTemplateApplyConfig opts nodeName)"

definition AppliedTemplateHash :: "deployment \<Rightarrow> string" where
  "AppliedTemplateHash d = map_str (Annotations d) annotationTemplateHash"

definition deploymentApplyConfig ::
  "(pod_template \<Rightarrow> string) \<Rightarrow> deploy_options \<Rightarrow> string \<Rightarrow> deployment_apply" where
  "deploymentApplyConfig marshal opts nodeName =
     (let template = podTemplateApplyConfig opts nodeName;
          strategy = RollingUpdate 1 0;
          strategy = (if UseHostNetwork opts then Recreate else strategy)
      in \<lparr>ApName = DeploymentName nodeName, ApNamespace = Namespace opts,
          ApLabels = ManagedLabels nodeName,
          ApAnnotations = [(annotationTemplateHash, templateHash marshal template)],
          ApReplicas = 1, ApStrategy = strategy, ApSelector = selectorLabels nodeName,
          ApTemplate = template\<rparr>)"

definition loadBalancerServiceApplyConfig ::
  "validators \<Rightarrow> string \<Rightarrow> string \<Rightarrow> string list \<Rightarrow> service_apply" where
  "loadBalancerServiceApplyConfig V namespace nodeName externalIPs =
     \<lparr>ApName = loadBalancerServiceName V nodeName, ApNamespace = namespace,
      ApLabels = ManagedLabels nodeName, ApAnnotations = [],
      SvcSelector = ManagedLabels nodeName, SvcType = ServiceTypeLoadBalancer,
      LoadBalancerClass = ciliumNodeLoadBalancerClass,
      ExternalTrafficPolicy = TrafficPolicyLocal, AllocateLoadBalancerNodePorts = False,
      ExternalIPs = externalIPs,
      SvcPorts = map (\<lambda>traffic. \<lparr>SpName = tp_name traffic, SpPort = tp_port traffic,
                         SpTargetPort = tp_port traffic, SpProtocol = tp_protocol traffic\<rparr>) trafficPorts\<rparr>"

section \<open>Validation\<close>

lemma ValidateName_None [simp]: "ValidateName kind name check = None \<longleftrightarrow> check name = []"
  by (simp add: ValidateName_def Let_def)

lemma validate_optional_None:
  "validate_optional xs = None \<longleftrightarrow> (\<forall>(kind, name, check) \<in> set xs. name = [] \<or> check name = [])"
proof (induction xs)
  case (Cons x xs)
  then show ?case
    by (cases x) (auto simp: ValidateName_def Let_def split: if_splits)
qed simp

lemma validate_env_keys_None:
  "validate_env_keys V ek keys = None \<longleftrightarrow>
     distinct keys \<and> (\<forall>k \<in> set keys. map_get ek k \<noteq> Some True \<and> IsConfigMapKey V k = [])"
proof (induction keys arbitrary: ek)
  case (Cons k keys)
  then show ?case
    by (cases "ValidateName ''environment key'' k (IsConfigMapKey V)")
      (auto simp: ValidateName_def Let_def split: if_splits)
qed simp

lemma reserved_keys:
  "map_get (fold (\<lambda>(name, _). map_put name True) podFieldEnvVars []) k = Some True \<longleftrightarrow>
     k \<in> fst ` set podFieldEnvVars"
  by (auto simp: podFieldEnvVars_def)

lemma caddyEnvVars_names:
  "map EnvName (caddyEnvVars opts) = EnvSecretKeys opts @ map fst podFieldEnvVars"
  by (simp add: caddyEnvVars_def podFieldEnvVars_def comp_def)

lemma distinct_env_names:
  "distinct (map EnvName (caddyEnvVars opts)) \<longleftrightarrow>
     distinct (EnvSecretKeys opts) \<and> (\<forall>k \<in> set (EnvSecretKeys opts). k \<notin> fst ` set podFieldEnvVars)"
proof -
  have "distinct (map fst podFieldEnvVars)" by (simp add: podFieldEnvVars_def)
  then show ?thesis by (auto simp: caddyEnvVars_names)
qed

text \<open>C37. Validation of the deploy options accepts exactly the options that do not combine host
  networking with the Cilium load balancer, name a secret when they name secret keys, use
  well-formed names and an admissible origin key, and give the Caddy container environment
  variables with pairwise distinct, well-formed names (no secret key repeats or shadows a
  reserved \<^verbatim>\<open>CKIC_\<close> variable).\<close>

theorem Validate_accepts_exactly:
  "Validate V ToLower opts = None \<longleftrightarrow>
     \<not> (UseHostNetwork opts \<and> EnableCiliumLB opts) \<and>
     (EnvSecretKeys opts = [] \<or> EnvSecretName opts \<noteq> []) \<and>
     (\<forall>name \<in> {EnvSecretName opts, DataVolumePVC opts, ConfigVolumePVC opts}.
        name = [] \<or> IsDNS1123Subdomain V name = []) \<and>
     (CaddyAdminOriginKey opts = [] \<or> IsDNS1123Subdomain V (ToLower (CaddyAdminOriginKey opts)) = []) \<and>
     (\<forall>k \<in> set (EnvSecretKeys opts). IsConfigMapKey V k = []) \<and>
     distinct (map EnvName (caddyEnvVars opts))"
proof -
  let ?names = "[(''environment secret name'', EnvSecretName opts, IsDNS1123Subdomain V),
                (''data PVC name'', DataVolumePVC opts, IsDNS1123Subdomain V),
                (''config PVC name'', ConfigVolumePVC opts, IsDNS1123Subdomain V)]"
  have names: "validate_optional ?names = None \<longleftrightarrow>
      (\<forall>name \<in> {EnvSecretName opts, DataVolumePVC opts, ConfigVolumePVC opts}.
         name = [] \<or> IsDNS1123Subdomain V name = [])"
    by (simp add: validate_optional_None del: validate_optional.simps)
  show ?thesis
    unfolding Validate_def Let_def distinct_env_names names [symmetric]
    by (auto simp: validate_env_keys_None reserved_keys split: option.split if_splits
        simp del: validate_optional.simps)
qed

theorem Validate_accepts_exactly_witness:
  "let opts = \<lparr>Namespace = ''system'', BootConfigMapName = ''boot'', CaddyImage = ''caddy:2'',
        ImagePullPolicy = ''Always'', PrePullImage = True, EnableCiliumLB = True,
        UseHostNetwork = False, EnvSecretName = ''caddy-env'', EnvSecretKeys = [''ACME_EMAIL''],
        DataVolumePVC = '''', ConfigVolumePVC = '''', CaddyAdminOriginKey = ''''\<rparr>
   in Validate documented_validators (\<lambda>s. s) opts = None \<and>
      distinct (map EnvName (caddyEnvVars opts))"
proof -
  let ?opts = "\<lparr>Namespace = ''system'', BootConfigMapName = ''boot'', CaddyImage = ''caddy:2'',
        ImagePullPolicy = ''Always'', PrePullImage = True, EnableCiliumLB = True,
        UseHostNetwork = False, EnvSecretName = ''caddy-env'', EnvSecretKeys = [''ACME_EMAIL''],
        DataVolumePVC = '''', ConfigVolumePVC = '''', CaddyAdminOriginKey = ''''\<rparr>"
  have "Validate documented_validators (\<lambda>s. s) ?opts = None"
    unfolding Validate_accepts_exactly
    by (simp add: dv.dns1123_subdomain_check dv.config_map_key_check name_syntax_defs
        caddyEnvVars_names podFieldEnvVars_def)
  then show ?thesis using Validate_accepts_exactly by (simp add: Let_def)
qed

section \<open>The applied objects fit together\<close>

lemma TplLabels_podTemplate [simp]:
  "TplLabels (podTemplateApplyConfig opts n) = ManagedLabels n"
  by (simp add: podTemplateApplyConfig_def Let_def)

lemma selects_self: "selects (ManagedLabels n) (ManagedLabels m) \<longleftrightarrow> m = n"
  by (auto simp: selects_ManagedLabels)

lemma selects_selectorLabels: "selects (selectorLabels n) (ManagedLabels m) \<longleftrightarrow> m = n"
  by (auto simp: selects_def selectorLabels_def)

text \<open>The objects of one node fit together and only with each other: the Deployment's
  selector matches the labels of its own pod template and of no other node's; the node's Service
  selects exactly the pods of that node's template; every pod of the template is pinned to the
  node by a required affinity on its name; and the annotation the apply writes is the hash the
  rollout logic compares with.\<close>

lemma node_objects_fit:
  "(selects (ApSelector (deploymentApplyConfig marshal opts n)) (TplLabels (podTemplateApplyConfig opts m)) \<longleftrightarrow> m = n) \<and>
   (selects (SvcSelector (loadBalancerServiceApplyConfig V ns n ips)) (TplLabels (podTemplateApplyConfig opts m)) \<longleftrightarrow> m = n) \<and>
   ApTemplate (deploymentApplyConfig marshal opts n) = podTemplateApplyConfig opts n \<and>
   NodeAffinity (TplSpec (podTemplateApplyConfig opts n)) =
     [\<lparr>ReqKey = ObjectNameField, ReqOperator = NodeSelectorOpIn, ReqValues = [n]\<rparr>] \<and>
   map_str (ApAnnotations (deploymentApplyConfig marshal opts n)) annotationTemplateHash =
     TemplateHash marshal opts n"
  by (simp add: deploymentApplyConfig_def loadBalancerServiceApplyConfig_def Let_def selects_self
      selects_selectorLabels nodeNameAffinity_def TemplateHash_def map_str_def map_get_def)
     (simp add: podTemplateApplyConfig_def nodeNameAffinity_def Let_def)

lemma caddyContainer_ports:
  "tl (CaPorts (caddyContainer opts)) =
     map (\<lambda>t. \<lparr>PortName = tp_name t, ContainerPort = tp_port t, PortProtocol = tp_protocol t,
        HostPort = (if UseHostNetwork opts then Some (tp_port t) else None)\<rparr>) trafficPorts"
  by (simp add: caddyContainer_def)

text \<open>The update strategy fits the network mode. With host networking the Deployment is
  recreated (two pods could not share the host ports), every traffic port is bound to the host
  port of the same number and the pod uses the host network; otherwise one pod surges and none
  may be unavailable, and no host port is bound. In both modes the Service forwards to exactly
  the container's traffic ports, and the admin port is never among them.\<close>

lemma strategy_fits_network:
  assumes "d = deploymentApplyConfig marshal opts n"
    and "svc = loadBalancerServiceApplyConfig V ns n ips"
  shows "(ApStrategy d = Recreate \<longleftrightarrow> UseHostNetwork opts) \<and>
         (ApStrategy d = RollingUpdate 1 0 \<longleftrightarrow> \<not> UseHostNetwork opts) \<and>
         (HostNetwork (TplSpec (ApTemplate d)) = Some True \<longleftrightarrow> UseHostNetwork opts) \<and>
         (\<forall>c \<in> set (SpecContainers (TplSpec (ApTemplate d))). \<forall>p \<in> set (tl (CaPorts c)).
            HostPort p = (if UseHostNetwork opts then Some (ContainerPort p) else None)) \<and>
         (\<forall>c \<in> set (SpecContainers (TplSpec (ApTemplate d))).
            map (\<lambda>p. (PortName p, ContainerPort p, PortProtocol p)) (tl (CaPorts c)) =
            map (\<lambda>p. (SpName p, SpTargetPort p, SpProtocol p)) (SvcPorts svc)) \<and>
         of_nat adminPort \<notin> SpTargetPort ` set (SvcPorts svc)"
  unfolding assms
  by (simp add: deploymentApplyConfig_def podTemplateApplyConfig_def caddyContainer_ports
      loadBalancerServiceApplyConfig_def Let_def)
    (simp add: trafficPorts_def adminPort_def)

lemma TemplateHash_length [simp]: "length (TemplateHash marshal opts n) = 16"
  by (simp add: TemplateHash_def templateHash_def Let_def)

definition example_options :: deploy_options where
  "example_options = \<lparr>Namespace = ''system'', BootConfigMapName = ''boot'', CaddyImage = ''caddy:new'',
     ImagePullPolicy = ''IfNotPresent'', PrePullImage = True, EnableCiliumLB = False,
     UseHostNetwork = True, EnvSecretName = '''', EnvSecretKeys = [], DataVolumePVC = '''',
     ConfigVolumePVC = '''', CaddyAdminOriginKey = ''''\<rparr>"

lemma strategy_fits_network_example:
  "ApStrategy (deploymentApplyConfig (\<lambda>_. ''{}'') example_options ''node1'') = Recreate \<and>
   HostNetwork (TplSpec (ApTemplate (deploymentApplyConfig (\<lambda>_. ''{}'') example_options ''node1''))) = Some True"
  using strategy_fits_network [OF refl refl, of "\<lambda>_. ''{}''" example_options "''node1''"]
  by (simp add: example_options_def)

end
