(* ===== verification/Kube_Mem.thy ===== *)
theory Kube_Mem
  imports Kube
begin

text \<open>
  An in-memory API server that keeps the contracts of \<open>Kube\<close>: lists of objects per kind and
  a schedule of injected failures, one entry per call (a call fails where the schedule says
  so, before it has any effect). It plays the part of client-go's fake clientset in the
  repository's tests: witnesses evaluate the operations on it.
\<close>

record mem =
  m_deps :: "deployment list"
  m_svcs :: "service list"
  m_pods :: "pod list"
  m_cms :: "config_map list"
  m_faults :: "string option list"

definition mem_empty :: mem where
  "mem_empty = \<lparr>m_deps = [], m_svcs = [], m_pods = [], m_cms = [], m_faults = []\<rparr>"

definition next_fault :: "mem \<Rightarrow> string option \<times> mem" where
  "next_fault w = (case m_faults w of [] \<Rightarrow> (None, w) | f # fs \<Rightarrow> (f, w\<lparr>m_faults := fs\<rparr>))"

definition faulty :: "(api_error \<Rightarrow> 'r) \<Rightarrow> (mem \<Rightarrow> 'r \<times> mem) \<Rightarrow> mem \<Rightarrow> 'r \<times> mem" where
  "faulty fail call w = (case next_fault w of
      (Some m, w') \<Rightarrow> (fail (ApiFailure m), w') | (None, w') \<Rightarrow> call w')"

definition merge_map :: "'a gomap \<Rightarrow> 'a gomap \<Rightarrow> 'a gomap" where
  "merge_map a m = foldr (\<lambda>(k, v). map_put k v) a m"

definition upsert :: "('o \<Rightarrow> bool) \<Rightarrow> ('o option \<Rightarrow> 'o) \<Rightarrow> 'o list \<Rightarrow> 'o list" where
  "upsert p f xs = (case List.find p xs of
      None \<Rightarrow> xs @ [f None] | Some x \<Rightarrow> map (\<lambda>y. if p y then f (Some x) else y) xs)"

definition blank_meta :: "'b apply_meta_scheme \<Rightarrow> object_meta" where
  "blank_meta a = \<lparr>Name = ApName a, ObjNamespace = ApNamespace a, UID = ''uid-'' @ ApName a, Labels = [],
     Annotations = [], CreationTimestamp = 0, DeletionTimestamp = None, Generation = 1\<rparr>"

definition stamp :: "'b apply_meta_scheme \<Rightarrow> 'a object_meta_scheme \<Rightarrow> 'a object_meta_scheme" where
  "stamp a x = x\<lparr>Name := ApName a, ObjNamespace := ApNamespace a,
     Labels := merge_map (ApLabels a) (Labels x),
     Annotations := merge_map (ApAnnotations a) (Annotations x)\<rparr>"

definition new_deployment :: "deployment_apply \<Rightarrow> deployment option \<Rightarrow> deployment" where
  "new_deployment a old = stamp a (case old of
      None \<Rightarrow> object_meta.extend (blank_meta a)
        (deployment.fields (Some (ApReplicas a)) None [] 0 0 0 0 [])
    | Some d \<Rightarrow> d\<lparr>Generation := Generation d + 1\<rparr>)
      \<lparr>TemplateContainers := map (\<lambda>c. \<lparr>CName = CaName c, CImage = CaImage c\<rparr>) (SpecContainers (TplSpec (ApTemplate a)))\<rparr>"

definition new_service :: "service_apply \<Rightarrow> service option \<Rightarrow> service" where
  "new_service a old = stamp a (case old of None \<Rightarrow> blank_meta a | Some x \<Rightarrow> x)"

definition new_pod :: "pod_apply \<Rightarrow> pod option \<Rightarrow> pod" where
  "new_pod a old = stamp a (case old of
      None \<Rightarrow> object_meta.extend (blank_meta a)
        (pod.fields (PhaseOther ''Pending'') [] [] [] []
          (map (\<lambda>c. \<lparr>CName = CaName c, CImage = CaImage c\<rparr>) (SpecContainers (ApPodSpec a))))
    | Some x \<Rightarrow> x)"

definition new_config_map :: "config_map_apply \<Rightarrow> config_map option \<Rightarrow> config_map" where
  "new_config_map a old = (let c = stamp a (case old of
      None \<Rightarrow> object_meta.extend (blank_meta a) (config_map.fields []) | Some x \<Rightarrow> x)
    in c\<lparr>Data := merge_map (ApData a) (Data c)\<rparr>)"

definition mem_list :: "(mem \<Rightarrow> 'a object_meta_scheme list) \<Rightarrow> string \<Rightarrow> labels \<Rightarrow> mem \<Rightarrow>
    (api_error + 'a object_meta_scheme list) \<times> mem" where
  "mem_list get ns sel = faulty Inl
     (\<lambda>w. (Inr (filter (\<lambda>x. ObjNamespace x = ns \<and> selects sel (Labels x)) (get w)), w))"

definition mem_delete :: "(mem \<Rightarrow> 'a object_meta_scheme list) \<Rightarrow>
    (('a object_meta_scheme list \<Rightarrow> 'a object_meta_scheme list) \<Rightarrow> mem \<Rightarrow> mem) \<Rightarrow>
    string \<Rightarrow> string \<Rightarrow> delete_options \<Rightarrow> mem \<Rightarrow> api_error option \<times> mem" where
  "mem_delete get upd ns n d = faulty Some (\<lambda>w.
     if \<not> list_ex (at ns n) (get w) then (Some NotFound, w)
     else if \<not> list_ex (delete_target ns n d) (get w) then (Some Conflict, w)
     else (None, upd (filter (\<lambda>x. \<not> delete_target ns n d x)) w))"

definition mem_apply ::
  "(('o object_meta_scheme list \<Rightarrow> 'o object_meta_scheme list) \<Rightarrow> mem \<Rightarrow> mem) \<Rightarrow>
   ('b apply_meta_scheme \<Rightarrow> 'o object_meta_scheme option \<Rightarrow> 'o object_meta_scheme) \<Rightarrow>
   'b apply_meta_scheme \<Rightarrow> apply_options \<Rightarrow> mem \<Rightarrow> api_error option \<times> mem" where
  "mem_apply upd new a opts =
     faulty Some (\<lambda>w. (None, upd (upsert (at (ApNamespace a) (ApName a)) (new a)) w))"

definition mem_find_cm :: "string \<Rightarrow> string \<Rightarrow> mem \<Rightarrow> config_map option" where
  "mem_find_cm ns n w = List.find (at ns n) (m_cms w)"

definition mem_get_cm :: "string \<Rightarrow> string \<Rightarrow> mem \<Rightarrow> (api_error + config_map) \<times> mem" where
  "mem_get_cm ns n = faulty Inl
     (\<lambda>w. (case mem_find_cm ns n w of None \<Rightarrow> (Inl NotFound, w) | Some c \<Rightarrow> (Inr c, w)))"

definition mem_api :: "mem kube_api" where
  "mem_api = \<lparr>
     configmaps_get = mem_get_cm,
     configmaps_apply = mem_apply m_cms_update new_config_map,
     deployments_list = mem_list m_deps,
     deployments_apply = mem_apply m_deps_update new_deployment,
     deployments_delete = mem_delete m_deps m_deps_update,
     services_list = mem_list m_svcs,
     services_apply = mem_apply m_svcs_update new_service,
     services_delete = mem_delete m_svcs m_svcs_update,
     pods_list = mem_list m_pods,
     pods_apply = mem_apply m_pods_update new_pod,
     pods_delete = mem_delete m_pods m_pods_update\<rparr>"

lemmas mem_eval = mem_api_def mem_list_def mem_delete_def mem_apply_def mem_get_cm_def mem_find_cm_def
  faulty_def next_fault_def mem_empty_def upsert_def merge_map_def stamp_def blank_meta_def
  new_deployment_def new_service_def new_pod_def new_config_map_def delete_target_def at_def
  object_meta.defs deployment.defs pod.defs config_map.defs Let_def

section \<open>The contracts hold\<close>

lemma map_get_merge: "map_get (merge_map a m) k = (case map_get a k of Some v \<Rightarrow> Some v | None \<Rightarrow> map_get m k)"
  by (induction a) (auto simp: merge_map_def map_get_def [of "_ # _"] simp flip: map_get_def split: option.splits)

lemma carries_merge: "carries (merge_map a m) a"
  by (simp add: carries_def map_get_merge)

lemma faulty_cases:
  assumes "faulty fail call w = (r, w')"
  obtains (fault) m fs where "r = fail (ApiFailure m)" "w' = m_faults_update fs w"
  | (call) fs where "call (m_faults_update fs w) = (r, w')"
proof -
  have "\<exists>fs. snd (next_fault w) = m_faults_update fs w"
    by (cases "m_faults w") (auto simp: next_fault_def intro: exI [of _ "\<lambda>x. x"])
  then obtain fs where "snd (next_fault w) = m_faults_update fs w" ..
  with assms that show thesis
    by (cases "next_fault w") (auto simp: faulty_def split: option.splits)
qed

lemma object_store_mem:
  assumes upd: "\<And>f w. get (upd f w) = f (get w)"
    and faults: "\<And>f w. get (m_faults_update f w) = get w"
  shows "object_store (mem_list get) (mem_delete get upd) get"
proof
  fix ns sel w xs w' n d
  show "get (snd (mem_list get ns sel w)) = get w"
    by (cases "mem_list get ns sel w")
      (auto simp: mem_list_def faults elim!: faulty_cases)
  show "mem_list get ns sel w = (Inr xs, w') \<Longrightarrow>
      set xs = {x \<in> set (get w). ObjNamespace x = ns \<and> selects sel (Labels x)}"
    by (auto simp: mem_list_def faults elim!: faulty_cases)
  show "get (snd (mem_delete get upd ns n d w)) = get w \<or>
      get (snd (mem_delete get upd ns n d w)) = filter (\<lambda>x. \<not> delete_target ns n d x) (get w)"
    by (cases "mem_delete get upd ns n d w")
      (auto simp: mem_delete_def faults upd split: if_splits elim!: faulty_cases)
  show "mem_delete get upd ns n d w = (None, w') \<Longrightarrow>
      get w' = filter (\<lambda>x. \<not> delete_target ns n d x) (get w)"
    by (auto simp: mem_delete_def faults upd split: if_splits elim!: faulty_cases)
  show "mem_delete get upd ns n d w = (Some NotFound, w') \<Longrightarrow>
      get w' = get w \<and> (\<forall>x \<in> set (get w). \<not> at ns n x)"
    by (auto simp: mem_delete_def faults list_ex_iff split: if_splits elim!: faulty_cases)
qed

lemma set_upsert_other:
  assumes "\<And>y. p (f y)" "\<not> p x"
  shows "x \<in> set (upsert p f xs) \<longleftrightarrow> x \<in> set xs"
  using assms by (auto simp: upsert_def split: option.splits if_splits)

lemma upsert_present: "\<exists>old. f old \<in> set (upsert p f xs)"
  by (auto simp: upsert_def find_Some_iff image_iff split: option.splits) (metis nth_mem)

lemma find_upsert:
  assumes "\<And>y. p (f y)"
  shows "\<exists>old. List.find p (upsert p f xs) = Some (f old)"
proof -
  have range: "\<exists>old. x = f old" if "x \<in> set (upsert p f xs)" "p x" for x
    using that by (auto simp: upsert_def find_None_iff split: option.splits if_splits)
  obtain y where y: "List.find p (upsert p f xs) = Some y"
    using upsert_present [of f p xs] assms by (metis find_None_iff not_None_eq)
  then have "y \<in> set (upsert p f xs)" "p y" by (auto simp: find_Some_iff)
  with range y show ?thesis by auto
qed

lemma find_upsert_other:
  assumes "\<And>y. \<not> q (f y)" "\<And>x. p x \<Longrightarrow> \<not> q x"
  shows "List.find q (upsert p f xs) = List.find q xs"
proof -
  have "List.find q (xs @ [f None]) = List.find q xs"
    using assms by (induction xs) auto
  moreover have "List.find q (map (\<lambda>y. if p y then f o' else y) xs) = List.find q xs" for o'
    using assms by (induction xs) auto
  ultimately show ?thesis by (simp add: upsert_def split: option.splits)
qed

lemma names_unique_upsert:
  assumes "\<And>y. at ns n (f y)" "names_unique xs"
  shows "names_unique (upsert (at ns n) f xs)"
  using assms
  by (auto simp: names_unique_def upsert_def find_None_iff at_def split: option.splits if_splits)

lemma object_apply_mem:
  assumes upd: "\<And>f w. get (upd f w) = f (get w)"
    and faults: "\<And>f w. get (m_faults_update f w) = get w"
    and new: "\<And>a old. at (ApNamespace a) (ApName a) (new a old) \<and>
      carries (Labels (new a old)) (ApLabels a) \<and> carries (Annotations (new a old)) (ApAnnotations a)"
  shows "object_apply (mem_apply upd new) get"
proof
  fix a opts w w' x
  show "\<exists>x \<in> set (get w'). at (ApNamespace a) (ApName a) x \<and>
        carries (Labels x) (ApLabels a) \<and> carries (Annotations x) (ApAnnotations a)"
    if "mem_apply upd new a opts w = (None, w')"
  proof -
    from that have "get w' = upsert (at (ApNamespace a) (ApName a)) (new a) (get w)"
      by (auto simp: mem_apply_def upd faults elim!: faulty_cases)
    then obtain old where "new a old \<in> set (get w')"
      using upsert_present [of "new a" "at (ApNamespace a) (ApName a)" "get w"] by auto
    with new show ?thesis by blast
  qed
  show "x \<in> set (get (snd (mem_apply upd new a opts w))) \<longleftrightarrow> x \<in> set (get w)"
    if "\<not> at (ApNamespace a) (ApName a) x"
    using that new
    by (cases "mem_apply upd new a opts w")
      (auto simp: mem_apply_def upd faults set_upsert_other elim!: faulty_cases)
  show "names_unique (get (snd (mem_apply upd new a opts w)))" if "names_unique (get w)"
    using that new
    by (cases "mem_apply upd new a opts w")
      (auto simp: mem_apply_def upd faults names_unique_upsert elim!: faulty_cases)
qed

lemma stamp_props:
  "at (ApNamespace a) (ApName a) (stamp a x)" "carries (Labels (stamp a x)) (ApLabels a)"
  "carries (Annotations (stamp a x)) (ApAnnotations a)"
  by (simp_all add: stamp_def at_def carries_merge)

lemma untouched_mem:
  assumes "\<And>f w. v (upd f w) = v w" "\<And>f w. v (m_faults_update f w) = v w"
  shows "untouched v (mem_list get ns sel)" "untouched v (mem_delete get upd ns n d)"
    "untouched v (mem_apply upd new a opts)"
proof -
  have "v w' = v w" if "mem_list get ns sel w = (r, w')" for w r w'
    using that assms by (auto simp: mem_list_def elim!: faulty_cases)
  moreover have "v w' = v w" if "mem_delete get upd ns n d w = (r, w')" for w r w'
    using that assms by (auto simp: mem_delete_def split: if_splits elim!: faulty_cases)
  moreover have "v w' = v w" if "mem_apply upd new a opts w = (r, w')" for w r w'
    using that assms by (auto simp: mem_apply_def elim!: faulty_cases)
  ultimately show "untouched v (mem_list get ns sel)" "untouched v (mem_delete get upd ns n d)"
    "untouched v (mem_apply upd new a opts)"
    unfolding untouched_def by (metis prod.collapse)+
qed

interpretation mem: kube_server mem_api m_deps m_svcs m_pods
proof (intro kube_server.intro kube_server_axioms.intro, goal_cases)
  case 1 show ?case by (simp add: mem_api_def object_store_mem)
next
  case 2 show ?case by (simp add: mem_api_def object_store_mem)
next
  case 3 show ?case by (simp add: mem_api_def object_store_mem)
next
  case 4 show ?case
    unfolding mem_api_def kube_api.select_convs
    by (rule object_apply_mem) (use stamp_props in \<open>auto simp: new_deployment_def at_def\<close>)
next
  case 5 show ?case
    unfolding mem_api_def kube_api.select_convs
    by (rule object_apply_mem) (use stamp_props in \<open>auto simp: new_service_def\<close>)
next
  case 6 show ?case
    unfolding mem_api_def kube_api.select_convs
    by (rule object_apply_mem) (use stamp_props in \<open>auto simp: new_pod_def\<close>)
qed (simp_all add: mem_api_def untouched_mem)

interpretation mem_uid: uid_precondition "pods_delete mem_api" m_pods
  by unfold_locales
    (auto simp: mem_api_def mem_delete_def list_ex_iff split: if_splits elim!: faulty_cases)

interpretation mem_cm: config_store "configmaps_get mem_api" "configmaps_apply mem_api" mem_find_cm
proof
  fix ns n ns' n' w c w' opts and a :: config_map_apply
  have find_faults: "mem_find_cm ns n (m_faults_update f w) = mem_find_cm ns n w" for ns n f w
    by (simp add: mem_find_cm_def)
  show "mem_find_cm ns' n' (snd (configmaps_get mem_api ns n w)) = mem_find_cm ns' n' w"
    by (cases "configmaps_get mem_api ns n w")
      (auto simp: mem_api_def mem_get_cm_def find_faults split: option.splits elim!: faulty_cases)
  show "configmaps_get mem_api ns n w = (Inr c, w') \<Longrightarrow> mem_find_cm ns n w = Some c"
    by (auto simp: mem_api_def mem_get_cm_def find_faults split: option.splits elim!: faulty_cases)
  show "configmaps_get mem_api ns n w = (Inl NotFound, w') \<Longrightarrow> mem_find_cm ns n w = None"
    by (auto simp: mem_api_def mem_get_cm_def find_faults split: option.splits elim!: faulty_cases)
  let ?p = "at (ApNamespace a) (ApName a)"
  have new: "?p (new_config_map a old) \<and> carries (Data (new_config_map a old)) (ApData a) \<and>
      carries (Annotations (new_config_map a old)) (ApAnnotations a)" for old
    using stamp_props by (auto simp: new_config_map_def Let_def at_def carries_merge)
  show "\<exists>c. mem_find_cm (ApNamespace a) (ApName a) w' = Some c \<and>
      carries (Data c) (ApData a) \<and> carries (Annotations c) (ApAnnotations a)"
    if "configmaps_apply mem_api a opts w = (None, w')"
  proof -
    have w': "m_cms w' = upsert ?p (new_config_map a) (m_cms w)"
      using that by (auto simp: mem_api_def mem_apply_def elim!: faulty_cases)
    show ?thesis
      unfolding mem_find_cm_def w' using new find_upsert [of ?p "new_config_map a" "m_cms w"] by metis
  qed
  show "mem_find_cm ns n (snd (configmaps_apply mem_api a opts w)) = mem_find_cm ns n w"
    if "(ns, n) \<noteq> (ApNamespace a, ApName a)"
  proof -
    have "List.find (at ns n) (upsert ?p (new_config_map a) xs) = List.find (at ns n) xs" for xs
      by (rule find_upsert_other) (use that new in \<open>auto simp: at_def\<close>)
    then show ?thesis
      by (cases "configmaps_apply mem_api a opts w")
        (auto simp: mem_api_def mem_apply_def mem_find_cm_def elim!: faulty_cases)
  qed
qed

end
