(* ===== verification/Aggregator.thy ===== *)
theory Aggregator
  imports Podspec Kube_Mem
begin

text \<open>
  \<^verbatim>\<open>pkg/aggregator/aggregator.go\<close>: the base Caddyfile and the external fragments, their
  merge with its revision number (an unsigned 64-bit counter), the last configuration a Caddy
  instance has accepted, and the boot ConfigMap that mirrors it. Each method is one atomic step
  (the Go code holds the mutex for the whole of it); the enqueue callback is the Boolean the
  updates return. The ConfigMap size limit of Kubernetes is the parameter \<open>maxSize\<close>.
\<close>

section \<open>State\<close>

definition mirrorFieldManager :: string where "mirrorFieldManager = ''ckic-aggregator''"
definition annotationSnapshotHash :: string where
  "annotationSnapshotHash = ''ckic.cmld.ru/snapshot-hash''"

record snapshot =
  Caddyfile :: string
  Revision :: "64 word"

record aggregator =
  base :: string
  hasBase :: bool
  revision :: "64 word"
  accepted :: string
  acceptedRevision :: "64 word"
  externals :: "string gomap"
  ag_namespace :: string
  mirrorName :: string
  bootstrap :: string
  has_enqueue :: bool

definition New :: "string \<Rightarrow> string \<Rightarrow> string \<Rightarrow> bool \<Rightarrow> aggregator" where
  "New ns mirror boot enq =
     \<lparr>base = [], hasBase = False, revision = 0, accepted = [], acceptedRevision = 0, externals = [],
      ag_namespace = ns, mirrorName = mirror, bootstrap = boot, has_enqueue = enq\<rparr>"

section \<open>Updates\<close>

definition update :: "(aggregator \<Rightarrow> bool \<times> aggregator) \<Rightarrow> aggregator \<Rightarrow> bool \<times> aggregator" where
  "update mutate a =
     (let (changed, a1) = mutate a;
          a2 = (if changed then a1\<lparr>revision := revision a1 + 1\<rparr> else a1)
      in (changed \<and> has_enqueue a2, a2))"

definition UpdateBase :: "string \<Rightarrow> aggregator \<Rightarrow> bool \<times> aggregator" where
  "UpdateBase b = update (\<lambda>a.
     (\<not> hasBase a \<or> base a \<noteq> b, a\<lparr>base := b, hasBase := True\<rparr>))"

definition SetExternal :: "string \<Rightarrow> string \<Rightarrow> aggregator \<Rightarrow> bool \<times> aggregator" where
  "SetExternal source fragment = update (\<lambda>a.
     (map_str (externals a) source \<noteq> fragment, a\<lparr>externals := map_put source fragment (externals a)\<rparr>))"

definition RemoveExternal :: "string \<Rightarrow> aggregator \<Rightarrow> bool \<times> aggregator" where
  "RemoveExternal source = update (\<lambda>a.
     (map_get (externals a) source \<noteq> None, a\<lparr>externals := map_delete source (externals a)\<rparr>))"

section \<open>The merged Caddyfile\<close>

definition external_section :: "string \<Rightarrow> string \<Rightarrow> string" where
  "external_section source fragment =
     nl @ nl @ ''# ---- Begin external from '' @ source @ '' ----'' @ nl @ fragment @
     nl @ ''# ---- End external from '' @ source @ '' ----'' @ nl"

fun write_externals :: "string gomap \<Rightarrow> string list \<Rightarrow> string \<Rightarrow> string" where
  "write_externals ex [] sb = sb"
| "write_externals ex (source # sources) sb =
     (let fragment = TrimSpace (map_str ex source) in
      if fragment = [] then write_externals ex sources sb
      else write_externals ex sources (sb @ external_section source fragment))"

definition CurrentMerged :: "nat \<Rightarrow> aggregator \<Rightarrow> error + snapshot" where
  "CurrentMerged maxSize a =
     (if \<not> hasBase a then Inl (ErrMsg ''base ConfigMap has not supplied a Caddyfile'')
      else
        let sb = base a;
            sb = (if \<not> HasSuffix (base a) nl then sb @ nl else sb);
            merged = write_externals (externals a) (sort (map_keys (externals a))) sb
        in if length merged > maxSize then
             Inl (ErrMsg ''merged Caddyfile exceeds the ConfigMap limit'')
           else Inr \<lparr>Caddyfile = merged, Revision = revision a\<rparr>)"

section \<open>The accepted configuration and its mirror\<close>

definition Accept :: "snapshot \<Rightarrow> aggregator \<Rightarrow> bool \<times> aggregator" where
  "Accept s a =
     (if Revision s \<le> acceptedRevision a then (False, a)
      else (True, a\<lparr>accepted := Caddyfile s, acceptedRevision := Revision s\<rparr>))"

definition snapshotHash :: "aggregator \<Rightarrow> string \<Rightarrow> string" where
  "snapshotHash a caddyfile =
     (let digest = Sum256 (bootstrap a @ [CHR 0x00] @ caddyfile) in hex_encode (take 8 digest))"

definition blank_config_map :: config_map where
  "blank_config_map =
     \<lparr>Name = [], ObjNamespace = [], UID = [], Labels = [], Annotations = [], CreationTimestamp = 0,
      DeletionTimestamp = None, Generation = 0, Data = []\<rparr>"

definition readMirror :: "'s kube_api \<Rightarrow> aggregator \<Rightarrow> 's \<Rightarrow> (error + config_map) \<times> 's" where
  "readMirror api a w =
     (case configmaps_get api (ag_namespace a) (mirrorName a) w of
        (Inl e, w') \<Rightarrow>
          if e = NotFound then (Inr blank_config_map, w')
          else (Inl (ErrApi (''failed to read boot ConfigMap '' @ mirrorName a) e), w')
      | (Inr mirror, w') \<Rightarrow> (Inr mirror, w'))"

definition publishMirror :: "'s kube_api \<Rightarrow> aggregator \<Rightarrow> string \<Rightarrow> 's \<Rightarrow> error option \<times> 's" where
  "publishMirror api a acc w =
     (let cm = \<lparr>ApName = mirrorName a, ApNamespace = ag_namespace a, ApLabels = BootConfigLabels,
                ApAnnotations = [(annotationSnapshotHash, snapshotHash a acc)],
                ApData = [(CaddyfileKey, acc)]\<rparr>
      in case configmaps_apply api cm \<lparr>FieldManager = mirrorFieldManager, Force = True\<rparr> w of
           (Some e, w') \<Rightarrow> (Some (ErrApi (''failed to publish boot ConfigMap '' @ mirrorName a) e), w')
         | (None, w') \<Rightarrow> (None, w'))"

definition InitializeMirror :: "'s kube_api \<Rightarrow> aggregator \<Rightarrow> 's \<Rightarrow> error option \<times> aggregator \<times> 's" where
  "InitializeMirror api a w =
     (case readMirror api a w of
        (Inl e, w1) \<Rightarrow> (Some e, a, w1)
      | (Inr mirror, w1) \<Rightarrow>
          let acc = map_str (Data mirror) CaddyfileKey in
          if map_str (Annotations mirror) annotationSnapshotHash \<noteq> snapshotHash a acc then
            (case publishMirror api a (bootstrap a) w1 of
               (Some e, w2) \<Rightarrow> (Some e, a, w2)
             | (None, w2) \<Rightarrow> (None, a\<lparr>accepted := bootstrap a\<rparr>, w2))
          else (None, a\<lparr>accepted := acc\<rparr>, w1))"

definition IsMirrorCurrent :: "aggregator \<Rightarrow> config_map \<Rightarrow> bool" where
  "IsMirrorCurrent a mirror \<longleftrightarrow>
     (let caddyfile = map_str (Data mirror) CaddyfileKey in
      caddyfile = accepted a \<and>
      map_str (Annotations mirror) annotationSnapshotHash = snapshotHash a caddyfile)"

definition PublishMirror :: "'s kube_api \<Rightarrow> aggregator \<Rightarrow> 's \<Rightarrow> error option \<times> 's" where
  "PublishMirror api a w =
     (if accepted a = [] then
        (Some (ErrMsg (''boot ConfigMap '' @ mirrorName a @ '' has not been initialized'')), w)
      else publishMirror api a (accepted a) w)"

section \<open>What the merge depends on\<close>

definition live_fragment :: "string gomap \<Rightarrow> string \<Rightarrow> string option" where
  \<comment> \<open>the trimmed fragment of a source, when it is not blank\<close>
  "live_fragment ex k =
     (case map_get ex k of None \<Rightarrow> None | Some f \<Rightarrow> if TrimSpace f = [] then None else Some (TrimSpace f))"

definition live_sources :: "string gomap \<Rightarrow> string list" where
  "live_sources ex = filter (\<lambda>k. live_fragment ex k \<noteq> None) (sort (map_keys ex))"

definition with_newline :: "string \<Rightarrow> string" where
  "with_newline s = (if HasSuffix s nl then s else s @ nl)"

lemma TrimSpace_Nil [simp]: "TrimSpace [] = []"
  by code_simp

lemma live_fragment_alt:
  "live_fragment ex k = (if TrimSpace (map_str ex k) = [] then None else Some (TrimSpace (map_str ex k)))"
  by (auto simp: live_fragment_def map_str_def split: option.splits)

lemma write_externals_eq:
  "write_externals ex ks sb =
     sb @ concat (map (\<lambda>k. external_section k (the (live_fragment ex k)))
            (filter (\<lambda>k. live_fragment ex k \<noteq> None) ks))"
  by (induction ks arbitrary: sb) (auto simp: live_fragment_alt Let_def)

lemma live_sources_props:
  assumes "map_wf ex"
  shows "sorted (live_sources ex)" "distinct (live_sources ex)"
    "set (live_sources ex) = {k. live_fragment ex k \<noteq> None}"
  using assms gm.distinct_keys [of ex] gm.set_keys [of ex]
  by (auto simp: live_sources_def sorted_wrt_filter live_fragment_def simp del: gm_simps
      intro: sorted_filter [where f = "\<lambda>x. x", simplified] split: option.splits)

lemma live_sources_ext:
  assumes "map_wf ex" "map_wf ex'" "live_fragment ex = live_fragment ex'"
  shows "live_sources ex = live_sources ex'"
  using assms live_sources_props by (metis sorted_distinct_set_unique)

definition merged_text :: "aggregator \<Rightarrow> string" where
  "merged_text a = with_newline (base a) @
     concat (map (\<lambda>k. external_section k (the (live_fragment (externals a) k))) (live_sources (externals a)))"

lemma CurrentMerged_eq:
  "CurrentMerged maxSize a =
     (if \<not> hasBase a then Inl (ErrMsg ''base ConfigMap has not supplied a Caddyfile'')
      else if length (merged_text a) > maxSize then Inl (ErrMsg ''merged Caddyfile exceeds the ConfigMap limit'')
      else Inr \<lparr>Caddyfile = merged_text a, Revision = revision a\<rparr>)"
  by (simp add: CurrentMerged_def merged_text_def live_sources_def with_newline_def write_externals_eq Let_def)

lemma CurrentMerged_cong:
  assumes "map_wf (externals a)" "map_wf (externals b)"
    and "hasBase a = hasBase b" "base a = base b" "revision a = revision b"
    and "live_fragment (externals a) = live_fragment (externals b)"
  shows "CurrentMerged maxSize a = CurrentMerged maxSize b"
  using live_sources_ext [OF assms(1,2,6)] assms by (simp add: CurrentMerged_eq merged_text_def)

text \<open>C17. The merged Caddyfile is the base, ended by a newline, followed by one marked section
  for every external source whose fragment is not blank: each exactly once, trimmed, in the byte
  order of the source names, whatever the order of the Go map. It carries the current revision
  and fits the size limit; without a base, or beyond the limit, there is an error and no
  snapshot.\<close>

theorem CurrentMerged_content:
  assumes "map_wf (externals a)"
  shows "case CurrentMerged maxSize a of
      Inl e \<Rightarrow> \<not> hasBase a \<or> maxSize < length (merged_text a)
    | Inr s \<Rightarrow> hasBase a \<and> Revision s = revision a \<and> length (Caddyfile s) \<le> maxSize \<and>
        (\<exists>ks. sorted ks \<and> distinct ks \<and>
           set ks = {k. \<exists>f. map_get (externals a) k = Some f \<and> TrimSpace f \<noteq> []} \<and>
           Caddyfile s = with_newline (base a) @
             concat (map (\<lambda>k. external_section k (TrimSpace (map_str (externals a) k))) ks))"
proof -
  let ?ks = "live_sources (externals a)"
  note p = live_sources_props [OF assms]
  have set: "set ?ks = {k. \<exists>f. map_get (externals a) k = Some f \<and> TrimSpace f \<noteq> []}"
    unfolding p(3) by (auto simp: live_fragment_def split: option.splits)
  have "map (\<lambda>k. external_section k (the (live_fragment (externals a) k))) ?ks =
        map (\<lambda>k. external_section k (TrimSpace (map_str (externals a) k))) ?ks"
    using p(3) by (auto simp: live_fragment_alt split: if_splits)
  then have "merged_text a = with_newline (base a) @
      concat (map (\<lambda>k. external_section k (TrimSpace (map_str (externals a) k))) ?ks)"
    by (simp only: merged_text_def)
  with p(1,2) set show ?thesis
    by (auto simp: CurrentMerged_eq intro!: exI [of _ ?ks])
qed

definition example_aggregator :: aggregator where
  "example_aggregator = (New ''system'' ''boot'' ''bootstrap'' True)
     \<lparr>base := '':80'', hasBase := True, revision := 3,
      externals := [(''b/cm'', ''two''), (''a/cm'', '' one ''), (''c/cm'', ''  '')]\<rparr>"

lemma example_trims:
  "TrimSpace '' one '' = ''one''" "TrimSpace ''two'' = ''two''" "TrimSpace ''  '' = []"
  "HasSuffix '':80'' nl = False"
  by code_simp+

lemma example_merged:
  "CurrentMerged 1048576 example_aggregator =
     Inr \<lparr>Caddyfile = '':80'' @ nl @ external_section ''a/cm'' ''one'' @ external_section ''b/cm'' ''two'',
          Revision = 3\<rparr>"
  by (simp add: CurrentMerged_def example_aggregator_def New_def map_keys_def map_str_def map_get_def
      example_trims external_section_def)

theorem CurrentMerged_content_witness:
  "\<exists>s. CurrentMerged 1048576 example_aggregator = Inr s \<and> Revision s = 3 \<and>
     Caddyfile s = '':80'' @ nl @ external_section ''a/cm'' ''one'' @ external_section ''b/cm'' ''two'' \<and>
     length (Caddyfile s) \<le> 1048576"
proof -
  have wf: "map_wf (externals example_aggregator)"
    by (simp add: example_aggregator_def map_wf_def)
  with CurrentMerged_content [OF wf, of 1048576] example_merged show ?thesis by simp
qed

section \<open>Revisions identify contents\<close>

datatype agg_op =
    OpUpdateBase string
  | OpSetExternal string string
  | OpRemoveExternal string
  | OpAccept snapshot

fun agg_step :: "agg_op \<Rightarrow> aggregator \<Rightarrow> bool \<times> aggregator" where
  "agg_step (OpUpdateBase b) a = UpdateBase b a"
| "agg_step (OpSetExternal k f) a = SetExternal k f a"
| "agg_step (OpRemoveExternal k) a = RemoveExternal k a"
| "agg_step (OpAccept s) a = Accept s a"

fun agg_run :: "agg_op list \<Rightarrow> aggregator \<Rightarrow> aggregator" where
  "agg_run [] a = a"
| "agg_run (x # xs) a = agg_run xs (snd (agg_step x a))"

lemmas update_defs = UpdateBase_def SetExternal_def RemoveExternal_def update_def Let_def

lemma agg_step_wf: "map_wf (externals a) \<Longrightarrow> map_wf (externals (snd (agg_step x a)))"
  by (cases x) (auto simp: update_defs Accept_def)

lemma agg_run_wf: "map_wf (externals a) \<Longrightarrow> map_wf (externals (agg_run xs a))"
  by (induction xs arbitrary: a) (auto simp: agg_step_wf)

lemma live_fragment_put_same:
  "map_str ex k = f \<Longrightarrow> live_fragment (map_put k f ex) = live_fragment ex"
  by (auto simp: live_fragment_def map_str_def split: option.splits)

lemma live_fragment_delete_missing:
  "map_wf ex \<Longrightarrow> map_get ex k = None \<Longrightarrow> live_fragment (map_delete k ex) = live_fragment ex"
  by (auto simp: live_fragment_def split: option.splits)

text \<open>Each step either advances the revision by one or leaves revision and merge alone.\<close>

lemma agg_step_revision:
  assumes "map_wf (externals a)"
  shows "revision (snd (agg_step x a)) = revision a + 1 \<or>
         revision (snd (agg_step x a)) = revision a \<and>
         CurrentMerged m (snd (agg_step x a)) = CurrentMerged m a"
proof (cases x)
  case (OpUpdateBase b)
  then show ?thesis
    using assms by (auto simp: update_defs intro!: CurrentMerged_cong)
next
  case (OpSetExternal k f)
  then show ?thesis
    using assms by (auto simp: update_defs live_fragment_put_same intro!: CurrentMerged_cong)
next
  case (OpRemoveExternal k)
  then show ?thesis
    using assms by (auto simp: update_defs live_fragment_delete_missing intro!: CurrentMerged_cong)
next
  case (OpAccept s)
  then show ?thesis
    using assms by (auto simp: Accept_def intro!: CurrentMerged_cong)
qed

lemma agg_run_revision:
  assumes "map_wf (externals a)"
  shows "\<exists>k \<le> length xs. revision (agg_run xs a) = revision a + word_of_nat k \<and>
           (k = 0 \<longrightarrow> CurrentMerged m (agg_run xs a) = CurrentMerged m a)"
  using assms
proof (induction xs arbitrary: a)
  case (Cons x xs)
  let ?b = "snd (agg_step x a)"
  obtain k where k: "k \<le> length xs" "revision (agg_run xs ?b) = revision ?b + word_of_nat k"
    "k = 0 \<longrightarrow> CurrentMerged m (agg_run xs ?b) = CurrentMerged m ?b"
    using Cons.IH [OF agg_step_wf [OF Cons.prems]] by blast
  from agg_step_revision [OF Cons.prems, of x m] show ?case
  proof
    assume "revision ?b = revision a + 1"
    with k show ?thesis by (intro exI [of _ "Suc k"]) (simp add: algebra_simps)
  next
    assume "revision ?b = revision a \<and> CurrentMerged m ?b = CurrentMerged m a"
    with k show ?thesis by (intro exI [of _ k]) auto
  qed
qed (intro exI [of _ 0], simp)

lemma word_of_nat_0_small: "word_of_nat k = (0 :: 64 word) \<Longrightarrow> k < 2 ^ 64 \<Longrightarrow> k = 0"
  by (simp add: word_of_nat_eq_0_iff) (metis gr0I nat_dvd_not_less)

text \<open>C8. A revision number identifies the merged configuration: over any sequence of fewer than
  2 to the 64 operations (base updates, external updates and removals, acceptances), if the
  revision at the end is the revision at the start then the merge is the same, content, revision
  and error alike. So a snapshot whose revision is not newer than the accepted one carries
  nothing newer, also when an update was reported as no change.\<close>

theorem revision_identifies_content:
  assumes "map_wf (externals a)" and "length ops < 2 ^ 64"
    and "revision (agg_run ops a) = revision a"
  shows "CurrentMerged maxSize (agg_run ops a) = CurrentMerged maxSize a"
proof -
  obtain k where k: "k \<le> length ops" "revision (agg_run ops a) = revision a + word_of_nat k"
    "k = 0 \<longrightarrow> CurrentMerged maxSize (agg_run ops a) = CurrentMerged maxSize a"
    using agg_run_revision [OF assms(1)] by blast
  with assms(2,3) have "word_of_nat k = (0 :: 64 word)" "k < 2 ^ 64" by auto
  with k(3) word_of_nat_0_small show ?thesis by blast
qed

theorem revision_identifies_content_witness:
  "let ops = [OpUpdateBase '':80'', OpSetExternal ''d/cm'' '''', OpRemoveExternal ''x/cm'']
   in revision (agg_run ops example_aggregator) = revision example_aggregator \<and>
      map_get (externals (agg_run ops example_aggregator)) ''d/cm'' = Some '''' \<and>
      CurrentMerged 1048576 (agg_run ops example_aggregator) = CurrentMerged 1048576 example_aggregator"
proof -
  let ?ops = "[OpUpdateBase '':80'', OpSetExternal ''d/cm'' '''', OpRemoveExternal ''x/cm'']"
  have "map_wf (externals example_aggregator)"
    by (simp add: example_aggregator_def map_wf_def)
  moreover have rev: "revision (agg_run ?ops example_aggregator) = revision example_aggregator"
    "map_get (externals (agg_run ?ops example_aggregator)) ''d/cm'' = Some ''''"
    by (simp_all add: example_aggregator_def New_def update_defs map_str_def map_get_def map_put_def map_delete_def)
  ultimately show ?thesis
    using revision_identifies_content [of example_aggregator ?ops 1048576] by (simp add: Let_def)
qed

section \<open>Acceptance\<close>

text \<open>
  The contract the reconciler relies on: an acceptance either stores a strictly newer snapshot
  or does nothing. Workers accept in any order; what is stored at the end is the newest.
\<close>

locale acceptor =
  fixes accept :: "'s \<Rightarrow> 'a \<Rightarrow> bool \<times> 'a"
    and rev_of :: "'s \<Rightarrow> 'r::linorder"
    and content_of :: "'s \<Rightarrow> 'c"
    and acc_rev :: "'a \<Rightarrow> 'r"
    and acc :: "'a \<Rightarrow> 'c"
  assumes accept_newer: "acc_rev a < rev_of s \<Longrightarrow> \<exists>a'. accept s a = (True, a') \<and>
      acc_rev a' = rev_of s \<and> acc a' = content_of s"
    and accept_stale: "rev_of s \<le> acc_rev a \<Longrightarrow> accept s a = (False, a)"
begin

lemma accept_rev: "acc_rev (snd (accept s a)) = max (acc_rev a) (rev_of s)"
  using accept_newer [of a s] accept_stale [of s a] by (cases "acc_rev a < rev_of s") auto

lemma accept_mono: "acc_rev a \<le> acc_rev (snd (accept s a))"
  by (simp add: accept_rev)

lemma accept_changes: "accept s a = (b, a') \<Longrightarrow> b \<longleftrightarrow> acc_rev a < rev_of s"
  using accept_newer [of a s] accept_stale [of s a] by (cases "acc_rev a < rev_of s") auto

lemma fold_accept_rev:
  "acc_rev (fold (\<lambda>s a. snd (accept s a)) ss a) = Max (insert (acc_rev a) (rev_of ` set ss))"
proof (induction ss arbitrary: a)
  case (Cons s ss)
  have "acc_rev (fold (\<lambda>s a. snd (accept s a)) (s # ss) a) =
      Max (insert (max (acc_rev a) (rev_of s)) (rev_of ` set ss))"
    using Cons by (simp add: accept_rev)
  also have "\<dots> = Max (insert (acc_rev a) (rev_of ` set (s # ss)))"
    by (cases "set ss = {}") (simp_all add: max.assoc max.commute max.left_commute)
  finally show ?case .
qed simp

lemma fold_accept_content:
  assumes "a' = fold (\<lambda>s a. snd (accept s a)) ss a"
  shows "acc_rev a' = acc_rev a \<and> acc a' = acc a \<or>
     (\<exists>s \<in> set ss. acc_rev a < rev_of s \<and> acc_rev a' = rev_of s \<and> acc a' = content_of s)"
  using assms
proof (induction ss arbitrary: a)
  case (Cons s ss)
  let ?b = "snd (accept s a)"
  have a': "a' = fold (\<lambda>s a. snd (accept s a)) ss ?b" using Cons.prems by simp
  note IH = Cons.IH [OF a']
  show ?case
  proof (cases "acc_rev a < rev_of s")
    case True
    then have b: "acc_rev ?b = rev_of s" "acc ?b = content_of s" using accept_newer [of a s] by auto
    from IH show ?thesis
    proof
      assume "acc_rev a' = acc_rev ?b \<and> acc a' = acc ?b"
      with b True show ?thesis by simp
    next
      assume "\<exists>t \<in> set ss. acc_rev ?b < rev_of t \<and> acc_rev a' = rev_of t \<and> acc a' = content_of t"
      then obtain t where "t \<in> set ss" "acc_rev ?b < rev_of t" "acc_rev a' = rev_of t" "acc a' = content_of t"
        by blast
      moreover from this b True have "acc_rev a < rev_of t" by simp
      ultimately show ?thesis by (meson list.set_intros(2))
    qed
  next
    case False
    then have "?b = a" using accept_stale [of s a] by simp
    with IH show ?thesis by auto
  qed
qed simp

lemma fold_accept_order:
  assumes "set ss = set ts"
    and consistent: "\<And>s t. s \<in> set ss \<Longrightarrow> t \<in> set ss \<Longrightarrow> rev_of s = rev_of t \<Longrightarrow> content_of s = content_of t"
  shows "acc (fold (\<lambda>s a. snd (accept s a)) ss a) = acc (fold (\<lambda>s a. snd (accept s a)) ts a)"
    (is "acc ?b = acc ?c")
proof -
  have rev: "acc_rev ?b = acc_rev ?c" using assms(1) by (simp add: fold_accept_rev)
  consider "acc_rev ?b = acc_rev a" "acc ?b = acc a"
    | s where "s \<in> set ss" "acc_rev a < rev_of s" "acc_rev ?b = rev_of s" "acc ?b = content_of s"
    using fold_accept_content [OF refl] by blast
  then show ?thesis
  proof cases
    case 1
    then have "acc ?c = acc a" using fold_accept_content [of ?c ts a] rev by auto
    with 1 show ?thesis by simp
  next
    case 2
    then have "acc_rev ?c \<noteq> acc_rev a" using rev by simp
    then obtain t where t: "t \<in> set ts" "acc_rev ?c = rev_of t" "acc ?c = content_of t"
      using fold_accept_content [of ?c ts a] by blast
    have "content_of s = content_of t"
      using consistent [of s t] 2(1,3) t(1,2) rev assms(1) by simp
    with 2(4) t(3) show ?thesis by simp
  qed
qed

end

interpretation agg: acceptor Accept Revision Caddyfile acceptedRevision accepted
  by unfold_locales (auto simp: Accept_def)

text \<open>C7. However the workers interleave their acceptances, the accepted configuration ends up
  being the newest: after accepting a list of snapshots in any order the accepted revision is the
  greatest among them and the previous one, it never goes back, the accepted Caddyfile belongs
  to that revision, and two orders of the same snapshots agree (snapshots with equal revisions
  having equal contents).\<close>

theorem accepted_is_newest:
  assumes "set ss = set ts"
    and "\<forall>s \<in> set ss. \<forall>t \<in> set ss. Revision s = Revision t \<longrightarrow> Caddyfile s = Caddyfile t"
  shows "let b = fold (\<lambda>s a. snd (Accept s a)) ss a; c = fold (\<lambda>s a. snd (Accept s a)) ts a in
         acceptedRevision b = Max (insert (acceptedRevision a) (Revision ` set ss)) \<and>
         acceptedRevision a \<le> acceptedRevision b \<and>
         (accepted b = accepted a \<and> acceptedRevision b = acceptedRevision a \<or>
          (\<exists>s \<in> set ss. Revision s = acceptedRevision b \<and> Caddyfile s = accepted b)) \<and>
         accepted c = accepted b \<and> acceptedRevision c = acceptedRevision b"
proof -
  let ?b = "fold (\<lambda>s a. snd (Accept s a)) ss a" and ?c = "fold (\<lambda>s a. snd (Accept s a)) ts a"
  have "accepted ?b = accepted ?c"
    by (rule agg.fold_accept_order) (use assms in blast)+
  moreover have "acceptedRevision ?b = Max (insert (acceptedRevision a) (Revision ` set ss))"
    by (rule agg.fold_accept_rev)
  moreover have "acceptedRevision ?c = Max (insert (acceptedRevision a) (Revision ` set ss))"
    unfolding assms(1) by (rule agg.fold_accept_rev)
  moreover have "acceptedRevision a \<le> Max (insert (acceptedRevision a) (Revision ` set ss))"
    by (rule Max_ge) simp_all
  moreover have "accepted ?b = accepted a \<and> acceptedRevision ?b = acceptedRevision a \<or>
      (\<exists>s \<in> set ss. Revision s = acceptedRevision ?b \<and> Caddyfile s = accepted ?b)"
    using agg.fold_accept_content [of ?b ss a] by metis
  ultimately show ?thesis unfolding Let_def by metis
qed

theorem accepted_is_newest_witness:
  "let s1 = \<lparr>Caddyfile = ''one'', Revision = 1\<rparr>; s2 = \<lparr>Caddyfile = ''two'', Revision = 2\<rparr>;
       b = fold (\<lambda>s a. snd (Accept s a)) [s2, s1] example_aggregator;
       c = fold (\<lambda>s a. snd (Accept s a)) [s1, s2] example_aggregator
   in accepted b = ''two'' \<and> accepted c = accepted b \<and> acceptedRevision c = acceptedRevision b"
proof -
  let ?s1 = "\<lparr>Caddyfile = ''one'', Revision = 1\<rparr>" and ?s2 = "\<lparr>Caddyfile = ''two'', Revision = 2\<rparr>"
  have "accepted (fold (\<lambda>s a. snd (Accept s a)) [?s2, ?s1] example_aggregator) = ''two''"
    by (simp add: Accept_def example_aggregator_def New_def)
  with accepted_is_newest [of "[?s2, ?s1]" "[?s1, ?s2]" example_aggregator] show ?thesis
    by (auto simp: Let_def)
qed

section \<open>The boot ConfigMap\<close>

lemma snapshotHash_length [simp]: "length (snapshotHash a c) = 16"
  by (simp add: snapshotHash_def Let_def)

lemma snapshotHash_nonempty [simp]: "snapshotHash a c \<noteq> []"
  using snapshotHash_length [of a c] by (metis list.size(3) zero_neq_numeral)

lemma snapshotHash_cong: "bootstrap a = bootstrap b \<Longrightarrow> snapshotHash a c = snapshotHash b c"
  by (simp add: snapshotHash_def)

definition mirrors :: "aggregator \<Rightarrow> string \<Rightarrow> config_map option \<Rightarrow> bool" where
  \<comment> \<open>the boot ConfigMap holds this Caddyfile, stamped for the aggregator's bootstrap\<close>
  "mirrors a c cm \<longleftrightarrow> (\<exists>m. cm = Some m \<and> map_str (Data m) CaddyfileKey = c \<and>
     map_str (Annotations m) annotationSnapshotHash = snapshotHash a c)"

context config_store
begin

lemma publishMirror_stores:
  assumes "get = configmaps_get api" "app = configmaps_apply api"
    and "publishMirror api a c w = (None, w')"
  shows "mirrors a c (find (ag_namespace a) (mirrorName a) w')"
proof -
  let ?a = "\<lparr>ApName = mirrorName a, ApNamespace = ag_namespace a, ApLabels = BootConfigLabels,
                ApAnnotations = [(annotationSnapshotHash, snapshotHash a c)], ApData = [(CaddyfileKey, c)]\<rparr>"
  let ?o = "\<lparr>FieldManager = mirrorFieldManager, Force = True\<rparr>"
  have "app ?a ?o w = (None, w')"
    using assms by (auto simp: publishMirror_def Let_def split: prod.splits option.splits)
  from app_done [OF this] show ?thesis
    by (auto simp: mirrors_def carries_def map_str_def map_get_def)
qed

lemma readMirror_reads:
  assumes "get = configmaps_get api" "readMirror api a w = (Inr m, w')"
  shows "find ns n w' = find ns n w \<and>
         (find (ag_namespace a) (mirrorName a) w = Some m \<or>
          find (ag_namespace a) (mirrorName a) w = None \<and> m = blank_config_map)"
proof -
  obtain r where r: "get (ag_namespace a) (mirrorName a) w = (r, w')"
    using assms by (auto simp: readMirror_def split: prod.splits sum.splits if_splits)
  have "find ns n w' = find ns n w" using get_find [of ns n "ag_namespace a" "mirrorName a" w] r by simp
  moreover have "find (ag_namespace a) (mirrorName a) w = Some m" if "r = Inr m"
    using get_found r that by blast
  moreover have "find (ag_namespace a) (mirrorName a) w = None" if "r = Inl NotFound"
    using get_missing r that by blast
  moreover have "r = Inr m \<or> r = Inl NotFound \<and> m = blank_config_map"
    using r assms by (cases r) (auto simp: readMirror_def split: if_splits)
  ultimately show ?thesis by blast
qed

lemma InitializeMirror_cases:
  assumes "get = configmaps_get api" "app = configmaps_apply api"
    and "InitializeMirror api a w = (None, b, w')"
  obtains (kept) c where "b = a\<lparr>accepted := c\<rparr>" "mirrors a c (find (ag_namespace a) (mirrorName a) w)"
      "\<And>ns n. find ns n w' = find ns n w"
  | (reset) "b = a\<lparr>accepted := bootstrap a\<rparr>" "mirrors a (bootstrap a) (find (ag_namespace a) (mirrorName a) w')"
      "\<nexists>c. mirrors a c (find (ag_namespace a) (mirrorName a) w)"
proof -
  obtain r w1 where r: "readMirror api a w = (r, w1)" by fastforce
  show thesis
  proof (cases r)
    case (Inl e)
    with assms(3) r show thesis by (simp add: InitializeMirror_def)
  next
    case (Inr m)
    note read = readMirror_reads [OF assms(1), of a w m w1]
    let ?c = "map_str (Data m) CaddyfileKey"
    show thesis
    proof (cases "map_str (Annotations m) annotationSnapshotHash = snapshotHash a ?c")
      case True
      have "m \<noteq> blank_config_map"
      proof
        assume "m = blank_config_map"
        with True have "snapshotHash a ?c = []" by (simp add: blank_config_map_def map_str_def)
        then show False by simp
      qed
      with read r Inr True have "mirrors a ?c (find (ag_namespace a) (mirrorName a) w)"
        by (auto simp: mirrors_def)
      moreover have "b = a\<lparr>accepted := ?c\<rparr>" "w' = w1"
        using assms(3) r Inr True by (auto simp: InitializeMirror_def Let_def)
      ultimately show thesis using kept [of ?c] read r Inr by blast
    next
      case False
      then obtain p where p: "publishMirror api a (bootstrap a) w1 = (None, w')" "b = a\<lparr>accepted := bootstrap a\<rparr>"
        using assms(3) r Inr by (auto simp: InitializeMirror_def Let_def split: prod.splits option.splits)
      have "\<nexists>c. mirrors a c (find (ag_namespace a) (mirrorName a) w)"
        using read r Inr False by (auto simp: mirrors_def)
      with publishMirror_stores [OF assms(1,2) p(1)] p(2) show thesis using reset by blast
    qed
  qed
qed

end

text \<open>C31. Initialisation leaves a current boot ConfigMap: when it reports no error, the ConfigMap
  exists, its content is the accepted configuration and its stamp matches, so no further publish
  is pending; the accepted configuration is what the ConfigMap held if that was stamped for this
  bootstrap Caddyfile, and otherwise (missing, edited, unstamped or stamped for another origin
  key) the bootstrap Caddyfile itself. Nothing else of the aggregator changes.\<close>

theorem InitializeMirror_establishes:
  assumes "config_store (configmaps_get api) (configmaps_apply api) look"
    and "InitializeMirror api a w = (None, b, w')"
  shows "(\<exists>cm. look (ag_namespace a) (mirrorName a) w' = Some cm \<and> IsMirrorCurrent b cm) \<and>
         b = a\<lparr>accepted := accepted b\<rparr> \<and>
         (mirrors a (accepted b) (look (ag_namespace a) (mirrorName a) w) \<or>
          accepted b = bootstrap a \<and> (\<nexists>c. mirrors a c (look (ag_namespace a) (mirrorName a) w)))"
proof (cases rule: config_store.InitializeMirror_cases [OF assms(1) refl refl assms(2), case_names kept reset])
  case (kept c)
  then show ?thesis by (auto simp: mirrors_def IsMirrorCurrent_def Let_def snapshotHash_def)
next
  case reset
  then show ?thesis by (auto simp: mirrors_def IsMirrorCurrent_def Let_def snapshotHash_def)
qed

text \<open>C25. A restart recovers the last published configuration: after a successful publish, a new
  aggregator with the same namespace, ConfigMap name and bootstrap Caddyfile that initialises
  without error has the published configuration as its accepted one, and leaves the ConfigMap
  as it is.\<close>

theorem restart_recovers:
  assumes "config_store (configmaps_get api) (configmaps_apply api) look"
    and "PublishMirror api a w = (None, w1)"
    and "ag_namespace b = ag_namespace a" "mirrorName b = mirrorName a" "bootstrap b = bootstrap a"
    and "InitializeMirror api b w1 = (None, b', w2)"
  shows "accepted b' = accepted a \<and>
         look (ag_namespace a) (mirrorName a) w2 = look (ag_namespace a) (mirrorName a) w1"
proof -
  have "publishMirror api a (accepted a) w = (None, w1)"
    using assms(2) by (auto simp: PublishMirror_def split: if_splits)
  then have stored: "mirrors a (accepted a) (look (ag_namespace a) (mirrorName a) w1)"
    by (rule config_store.publishMirror_stores [OF assms(1) refl refl])
  have same: "mirrors b c cm = mirrors a c cm" for c cm
    using snapshotHash_cong [OF assms(5)] by (simp add: mirrors_def)
  show ?thesis
  proof (cases rule: config_store.InitializeMirror_cases [OF assms(1) refl refl assms(6), case_names kept reset])
    case (kept c)
    then have "mirrors a c (look (ag_namespace a) (mirrorName a) w1)" using same assms(3,4) by simp
    with stored have "c = accepted a" by (auto simp: mirrors_def)
    with kept assms(3,4) show ?thesis by simp
  next
    case reset
    with stored same assms(3,4) show ?thesis by auto
  qed
qed

lemma mem_publish:
  "m_faults w = [] \<Longrightarrow> \<exists>w'. publishMirror mem_api a c w = (None, w') \<and> m_faults w' = []"
  by (simp add: publishMirror_def mem_api_def mem_apply_def faulty_def next_fault_def Let_def)

lemma mem_initialize:
  assumes "m_faults w = []"
  shows "\<exists>b w'. InitializeMirror mem_api a w = (None, b, w') \<and> m_faults w' = []"
proof -
  have "\<exists>m. readMirror mem_api a w = (Inr m, w)"
    using assms by (cases "mem_find_cm (ag_namespace a) (mirrorName a) w")
      (simp_all add: readMirror_def mem_api_def mem_get_cm_def faulty_def next_fault_def)
  with mem_publish [OF assms, of a "bootstrap a"] assms show ?thesis
    by (auto simp: InitializeMirror_def Let_def)
qed

theorem restart_recovers_witness:
  "\<exists>w1 b' w2. PublishMirror mem_api (example_aggregator\<lparr>accepted := ''loaded''\<rparr>) mem_empty = (None, w1) \<and>
     InitializeMirror mem_api example_aggregator w1 = (None, b', w2) \<and> accepted b' = ''loaded''"
proof -
  let ?a = "example_aggregator\<lparr>accepted := ''loaded''\<rparr>"
  obtain w1 where w1: "PublishMirror mem_api ?a mem_empty = (None, w1)" "m_faults w1 = []"
    using mem_publish [of mem_empty ?a "''loaded''"] by (auto simp: PublishMirror_def mem_empty_def)
  obtain b' w2 where b': "InitializeMirror mem_api example_aggregator w1 = (None, b', w2)"
    using mem_initialize [OF w1(2)] by blast
  have "accepted b' = accepted ?a"
    using restart_recovers [OF mem_cm.config_store_axioms w1(1) _ _ _ b'] by simp
  with w1 b' show ?thesis by auto
qed

theorem InitializeMirror_establishes_witness:
  "\<exists>b w'. InitializeMirror mem_api example_aggregator mem_empty = (None, b, w') \<and>
     accepted b = ''bootstrap'' \<and>
     (\<exists>cm. mem_find_cm ''system'' ''boot'' w' = Some cm \<and> IsMirrorCurrent b cm)"
proof -
  obtain b w' where b: "InitializeMirror mem_api example_aggregator mem_empty = (None, b, w')"
    using mem_initialize [of mem_empty example_aggregator] by (auto simp: mem_empty_def)
  have "mem_find_cm (ag_namespace example_aggregator) (mirrorName example_aggregator) mem_empty = None"
    by (simp add: mem_find_cm_def mem_empty_def)
  with b InitializeMirror_establishes [OF mem_cm.config_store_axioms b] show ?thesis
    by (auto simp: mirrors_def example_aggregator_def New_def)
qed

end
