(* ===== verification/Prepull.thy ===== *)
theory Prepull
  imports Podspec
begin

text \<open>
  \<^verbatim>\<open>pkg/caddy/prepull.go\<close>: the pod that pulls a new Caddy image on a node before the
  node is restarted, and how its status is read.
\<close>

definition prePullContainerName :: string where "prePullContainerName = ''prepull''"
definition prePullRunAsID :: int where "prePullRunAsID = 1000"

definition prePullPodApplyConfig :: "deploy_options \<Rightarrow> string \<Rightarrow> pod_apply" where
  "prePullPodApplyConfig opts nodeName =
     \<lparr>ApName = PrePullPodName nodeName, ApNamespace = Namespace opts,
      ApLabels = [(labelCaddyManaged, labelManagedValue), (labelType, labelTypePrePull),
                  (labelInstance, nodeName)],
      ApAnnotations = [],
      ApPodSpec =
        \<lparr>NodeAffinity = nodeNameAffinity nodeName, AutomountServiceAccountToken = False,
         PodSecurity =
           \<lparr>AllowPrivilegeEscalation = None, RunAsNonRoot = True, RunAsUser = Some prePullRunAsID,
            RunAsGroup = Some prePullRunAsID, CapAdd = [], CapDrop = [], Seccomp = SeccompRuntimeDefault\<rparr>,
         SpecContainers =
           [\<lparr>CaName = prePullContainerName, CaImage = CaddyImage opts, CaPullPolicy = ImagePullPolicy opts,
             CaCommand = [caddyBinary, ''version''], CaPorts = [], CaMounts = [], CaEnv = [],
             CaStartup = None, CaLiveness = None, CaReadiness = None,
             CaSecurity =
               \<lparr>AllowPrivilegeEscalation = Some False, RunAsNonRoot = True, RunAsUser = Some prePullRunAsID,
                RunAsGroup = Some prePullRunAsID, CapAdd = [''NET_BIND_SERVICE''], CapDrop = [''ALL''],
                Seccomp = SeccompRuntimeDefault\<rparr>\<rparr>],
         SpecVolumes = [], DNSPolicy = None, HostNetwork = None,
         RestartPolicy = Some RestartPolicyNever\<rparr>\<rparr>"

definition CreatePrePullPod :: "'s kube_api \<Rightarrow> deploy_options \<Rightarrow> string \<Rightarrow> 's \<Rightarrow> error option \<times> 's" where
  "CreatePrePullPod api opts nodeName w =
     (case pods_apply api (prePullPodApplyConfig opts nodeName) applyOptions w of
        (Some e, w') \<Rightarrow> (Some (ErrApi (''failed to create pre-pull pod for node '' @ nodeName) e), w')
      | (None, w') \<Rightarrow> (None, w'))"

fun container_image :: "string \<Rightarrow> container list \<Rightarrow> string" where
  "container_image name [] = []"
| "container_image name (c # cs) = (if CName c = name then CImage c else container_image name cs)"

definition PrePullPodImage :: "pod \<Rightarrow> string" where
  "PrePullPodImage p = container_image prePullContainerName (PodContainers p)"

definition deletePrePullPod ::
  "'s kube_api \<Rightarrow> string \<Rightarrow> string \<Rightarrow> string option \<Rightarrow> 's \<Rightarrow> error option \<times> 's" where
  "deletePrePullPod api namespace podName uid w =
     (case pods_delete api namespace podName \<lparr>GracePeriodSeconds = Some 0, PreconditionUID = uid\<rparr> w of
        (None, w') \<Rightarrow> (None, w')
      | (Some e, w') \<Rightarrow>
          if e = NotFound \<or> uid \<noteq> None \<and> e = Conflict then (None, w')
          else (Some (ErrApi (''failed to delete pre-pull pod '' @ podName) e), w'))"

definition DeletePrePullPod :: "'s kube_api \<Rightarrow> deploy_options \<Rightarrow> pod \<Rightarrow> 's \<Rightarrow> error option \<times> 's" where
  "DeletePrePullPod api opts p w = deletePrePullPod api (Namespace opts) (Name p) (Some (UID p)) w"

definition pulledReasons :: "string list" where
  "pulledReasons =
     [''CreateContainerConfigError'', ''CreateContainerError'', ''PreCreateHookError'',
      ''PreStartHookError'', ''PostStartHookError'', ''RunContainerError'', ''CrashLoopBackOff'']"

fun prepulled_statuses :: "container_status list \<Rightarrow> bool" where
  "prepulled_statuses [] = False"
| "prepulled_statuses (status # rest) =
     (if CsName status \<noteq> prePullContainerName then prepulled_statuses rest
      else if ContainerID status \<noteq> [] \<and> (Running status \<or> Terminated status) then True
      else (case Waiting status of
              Some (reason, _) \<Rightarrow> if reason \<in> set pulledReasons then True else prepulled_statuses rest
            | None \<Rightarrow> prepulled_statuses rest))"

definition IsImagePrePulled :: "pod \<Rightarrow> bool" where
  "IsImagePrePulled p = prepulled_statuses (ContainerStatuses p)"

section \<open>Properties\<close>

definition shows_pulled :: "container_status \<Rightarrow> bool" where
  "shows_pulled s \<longleftrightarrow>
     CsName s = prePullContainerName \<and>
     (ContainerID s \<noteq> [] \<and> (Running s \<or> Terminated s) \<or>
      (\<exists>m. Waiting s = Some m \<and> fst m \<in> set pulledReasons))"

lemma IsImagePrePulled_iff: "IsImagePrePulled p \<longleftrightarrow> (\<exists>s \<in> set (ContainerStatuses p). shows_pulled s)"
proof -
  have "prepulled_statuses xs \<longleftrightarrow> (\<exists>s \<in> set xs. shows_pulled s)" for xs
    by (induction xs) (auto simp: shows_pulled_def split: option.splits)
  then show ?thesis by (simp add: IsImagePrePulled_def)
qed

lemma prePullPod_image:
  "map (\<lambda>c. \<lparr>CName = CaName c, CImage = CaImage c\<rparr>)
     (SpecContainers (ApPodSpec (prePullPodApplyConfig opts n))) =
   [\<lparr>CName = prePullContainerName, CImage = CaddyImage opts\<rparr>]"
  by (simp add: prePullPodApplyConfig_def)

text \<open>A pre-pull pod is seen by the controller as a managed object of its node, but never as
  one of the node's Caddy pods: an object with the pre-pull labels enqueues its node and is
  selected by no node's managed-label selector, so it never receives a configuration and never
  counts as the active pod. It runs on that node only, without root and without restarts, and
  reads back the image it was created for.\<close>

lemma prepull_pod_is_separate:
  assumes "Labels p = ApLabels (prePullPodApplyConfig opts n)"
    and "PodContainers p = map (\<lambda>c. \<lparr>CName = CaName c, CImage = CaImage c\<rparr>)
           (SpecContainers (ApPodSpec (prePullPodApplyConfig opts n)))"
  shows "ManagedNodeName p = n \<and> \<not> selects (managedListOptions m) (Labels p) \<and>
         PrePullPodImage p = CaddyImage opts \<and>
         NodeAffinity (ApPodSpec (prePullPodApplyConfig opts n)) = nodeNameAffinity n \<and>
         RunAsNonRoot (PodSecurity (ApPodSpec (prePullPodApplyConfig opts n))) \<and>
         RestartPolicy (ApPodSpec (prePullPodApplyConfig opts n)) = Some RestartPolicyNever"
  using assms
  by (simp add: prePullPod_image PrePullPodImage_def managedListOptions_def selects_ManagedLabels)
    (simp add: prePullPodApplyConfig_def ManagedNodeName_def map_str_def map_get_def label_consts)

definition example_pod :: pod where
  "example_pod = \<lparr>Name = ''caddy-prepull-node1'', ObjNamespace = ''system'', UID = ''u1'',
     Labels = [(labelCaddyManaged, labelManagedValue), (labelType, labelTypePrePull), (labelInstance, ''node1'')],
     Annotations = [], CreationTimestamp = 0, DeletionTimestamp = None, Generation = 1,
     Phase = PhaseOther ''Pending'', PodReason = '''', PodIP = '''', PodConditions = [],
     ContainerStatuses = [], PodContainers = [\<lparr>CName = prePullContainerName, CImage = ''caddy:new''\<rparr>]\<rparr>"

lemma prepull_pod_is_separate_example:
  "ManagedNodeName example_pod = ''node1'' \<and>
   \<not> selects (managedListOptions ''node1'') (Labels example_pod) \<and>
   PrePullPodImage example_pod = ''caddy:new''"
proof -
  have "Labels example_pod = ApLabels (prePullPodApplyConfig example_options ''node1'')"
    by (simp add: example_pod_def prePullPodApplyConfig_def)
  moreover have "PodContainers example_pod = map (\<lambda>c. \<lparr>CName = CaName c, CImage = CaImage c\<rparr>)
      (SpecContainers (ApPodSpec (prePullPodApplyConfig example_options ''node1'')))"
    by (simp add: example_pod_def prePullPod_image example_options_def)
  ultimately show ?thesis
    using prepull_pod_is_separate [of example_pod example_options "''node1''" "''node1''"]
    by (simp add: example_options_def)
qed

end
