(* ===== verification/Cleanup.thy ===== *)
theory Cleanup
  imports Prepull Kube_Mem
begin

text \<open>
  \<^verbatim>\<open>pkg/caddy/cleanup.go\<close>: deletion of the objects a node owns. Every delete carries
  the UID the list returned. For any server that keeps the contract of \<open>kube_server\<close>:
  whatever calls fail, nothing but objects of the node is removed, and a run without error
  leaves none of them.
\<close>

section \<open>Operations\<close>

fun delete_each ::
  "(string \<Rightarrow> delete_options \<Rightarrow> 's \<Rightarrow> api_error option \<times> 's) \<Rightarrow> string \<Rightarrow> string \<Rightarrow>
   'a object_meta_scheme list \<Rightarrow> 's \<Rightarrow> error option \<times> 's" where
  "delete_each del kind keepName [] w = (None, w)"
| "delete_each del kind keepName (x # xs) w =
     (if Name x = keepName then delete_each del kind keepName xs w
      else case del (Name x) \<lparr>GracePeriodSeconds = None, PreconditionUID = Some (UID x)\<rparr> w of
             (None, w') \<Rightarrow> delete_each del kind keepName xs w'
           | (Some e, w') \<Rightarrow>
               if e = NotFound then delete_each del kind keepName xs w'
               else (Some (ErrApi (''failed to delete '' @ kind @ '' '' @ Name x) e), w'))"

definition deleteDeploymentsExcept ::
  "'s kube_api \<Rightarrow> deploy_options \<Rightarrow> string \<Rightarrow> string \<Rightarrow> 's \<Rightarrow> error option \<times> 's" where
  "deleteDeploymentsExcept api opts nodeName keepName w =
     (case deployments_list api (Namespace opts) (managedListOptions nodeName) w of
        (Inl e, w') \<Rightarrow> (Some (ErrApi (''failed to list deployments for node '' @ nodeName) e), w')
      | (Inr owned, w') \<Rightarrow>
          delete_each (deployments_delete api (Namespace opts)) ''deployment'' keepName owned w')"

definition deleteServicesExcept ::
  "'s kube_api \<Rightarrow> deploy_options \<Rightarrow> string \<Rightarrow> string \<Rightarrow> 's \<Rightarrow> error option \<times> 's" where
  "deleteServicesExcept api opts nodeName keepName w =
     (case services_list api (Namespace opts) (managedListOptions nodeName) w of
        (Inl e, w') \<Rightarrow> (Some (ErrApi (''failed to list services for node '' @ nodeName) e), w')
      | (Inr owned, w') \<Rightarrow>
          delete_each (services_delete api (Namespace opts)) ''service'' keepName owned w')"

definition Teardown ::
  "'s kube_api \<Rightarrow> validators \<Rightarrow> deploy_options \<Rightarrow> string \<Rightarrow> 's \<Rightarrow> error option \<times> 's" where
  "Teardown api V opts nodeName w =
     (if length (IsLabelValue V nodeName) > 0 then (None, w)
      else
        let (e1, w1) = deleteServicesExcept api opts nodeName [] w;
            (e2, w2) = deleteDeploymentsExcept api opts nodeName [] w1;
            (e3, w3) = deletePrePullPod api (Namespace opts) (PrePullPodName nodeName) None w2
        in (errors_Join [e1, e2, e3], w3))"

section \<open>What a deletion loop removes\<close>

definition owned :: "string \<Rightarrow> string \<Rightarrow> string \<Rightarrow> 'a object_meta_scheme \<Rightarrow> bool" where
  \<comment> \<open>an object of the node in the namespace that does not have the kept name\<close>
  "owned ns nodeName keepName x \<longleftrightarrow>
     ObjNamespace x = ns \<and> selects (ManagedLabels nodeName) (Labels x) \<and> Name x \<noteq> keepName"



definition hits :: "string \<Rightarrow> string \<Rightarrow> 'a object_meta_scheme list \<Rightarrow> 'a object_meta_scheme \<Rightarrow> bool" where
  "hits ns keep xs x \<longleftrightarrow> (\<exists>y \<in> set xs. Name y \<noteq> keep \<and> at ns (Name y) x \<and> UID x = UID y)"

context object_store
begin

lemma delete_each_bounds:
  assumes "delete_each (delete ns) kind keep xs w = (r, w')"
  shows "set (view w') \<subseteq> set (view w) \<and>
         (\<forall>x \<in> set (view w). \<not> hits ns keep xs x \<longrightarrow> x \<in> set (view w'))"
  using assms
proof (induction xs arbitrary: w)
  case (Cons y xs)
  show ?case
  proof (cases "Name y = keep")
    case False
    let ?d = "\<lparr>GracePeriodSeconds = None, PreconditionUID = Some (UID y)\<rparr>"
    obtain r1 w1 where d: "delete ns (Name y) ?d w = (r1, w1)" by fastforce
    then have sub: "set (view w1) \<subseteq> set (view w)"
      using delete_subset [of ns "Name y" ?d w] by simp
    have keeps: "x \<in> set (view w1)" if "x \<in> set (view w)" "\<not> hits ns keep (y # xs) x" for x
      using that False d delete_keeps [of x w ns "Name y" ?d] by (auto simp: hits_def delete_target_def)
    show ?thesis
    proof (cases "r1 = None \<or> r1 = Some NotFound")
      case True
      with Cons.prems d False have "delete_each (delete ns) kind keep xs w1 = (r, w')" by auto
      from Cons.IH [OF this] sub keeps show ?thesis by (auto simp: hits_def)
    next
      case False': False
      with Cons.prems d False have "w' = w1" by (auto split: option.splits if_splits)
      with sub keeps show ?thesis by blast
    qed
  qed (use Cons in \<open>auto simp: hits_def\<close>)
qed simp

lemma delete_each_done:
  assumes "delete_each (delete ns) kind keep xs w = (None, w')" "x \<in> set (view w')"
  shows "\<not> hits ns keep xs x"
  using assms
proof (induction xs arbitrary: w)
  case (Cons y xs)
  show ?case
  proof (cases "Name y = keep")
    case False
    let ?d = "\<lparr>GracePeriodSeconds = None, PreconditionUID = Some (UID y)\<rparr>"
    obtain r1 w1 where d: "delete ns (Name y) ?d w = (r1, w1)" by fastforce
    with Cons.prems False have r1: "r1 = None \<or> r1 = Some NotFound"
      and rest: "delete_each (delete ns) kind keep xs w1 = (None, w')"
      by (auto split: option.splits if_splits)
    have "x \<in> set (view w1)" using delete_each_bounds [OF rest] Cons.prems(2) by blast
    then have "\<not> delete_target ns (Name y) ?d x" using delete_gone [OF d r1] by simp
    with Cons.IH [OF rest Cons.prems(2)] show ?thesis by (auto simp: hits_def delete_target_def)
  qed (use Cons in \<open>auto simp: hits_def\<close>)
qed (simp add: hits_def)

lemma hits_listed:
  assumes "list ns (ManagedLabels n) w0 = (Inr xs, w)" "names_unique (view w0)" "x \<in> set (view w0)"
  shows "hits ns keep xs x \<longleftrightarrow> owned ns n keep x"
  using assms list_result [OF assms(1)]
  by (auto simp: hits_def owned_def at_def names_unique_def)

lemma list_delete_effect:
  assumes l: "list ns (ManagedLabels n) w0 = (Inr xs, w)" and u: "names_unique (view w0)"
    and d: "delete_each (delete ns) kind keep xs w = (r, w')"
  shows "set (view w') \<subseteq> set (view w0) \<and>
         (\<forall>x \<in> set (view w0). \<not> owned ns n keep x \<longrightarrow> x \<in> set (view w')) \<and>
         (r = None \<longrightarrow> (\<forall>x \<in> set (view w'). \<not> owned ns n keep x))"
proof -
  have view: "view w = view w0" using list_view [of ns "ManagedLabels n" w0] l by simp
  have hits: "hits ns keep xs x \<longleftrightarrow> owned ns n keep x" if "x \<in> set (view w0)" for x
    using hits_listed [OF l u that] .
  from delete_each_bounds [OF d] view have sub: "set (view w') \<subseteq> set (view w0)"
    and keep: "\<forall>x \<in> set (view w0). \<not> hits ns keep xs x \<longrightarrow> x \<in> set (view w')" by auto
  have "\<not> owned ns n keep x" if "r = None" "x \<in> set (view w')" for x
    using delete_each_done [of ns kind keep xs w w' x] d that hits sub by auto
  with sub keep hits show ?thesis by auto
qed

end

definition keeps_others :: "('s \<Rightarrow> 'a object_meta_scheme list) \<Rightarrow> ('a object_meta_scheme \<Rightarrow> bool) \<Rightarrow> 's \<Rightarrow> 's \<Rightarrow> bool" where
  \<comment> \<open>nothing is added, and only objects that satisfy the predicate are removed\<close>
  "keeps_others view p w w' \<longleftrightarrow>
     set (view w') \<subseteq> set (view w) \<and> (\<forall>x \<in> set (view w). \<not> p x \<longrightarrow> x \<in> set (view w'))"

definition removed_all :: "('s \<Rightarrow> 'a object_meta_scheme list) \<Rightarrow> ('a object_meta_scheme \<Rightarrow> bool) \<Rightarrow> 's \<Rightarrow> bool" where
  "removed_all view p w' \<longleftrightarrow> (\<forall>x \<in> set (view w'). \<not> p x)"

lemma delete_each_frame:
  assumes "\<And>n d. untouched v (del n d)" "delete_each del kind keep xs w = (r, w')"
  shows "v w' = v w"
  using assms(2)
proof (induction xs arbitrary: w)
  case (Cons y xs)
  show ?case
  proof (cases "Name y = keep")
    case False
    obtain r1 w1 where d: "del (Name y) \<lparr>GracePeriodSeconds = None, PreconditionUID = Some (UID y)\<rparr> w = (r1, w1)"
      by fastforce
    with assms(1) have "v w1 = v w" by (blast dest: untouchedD)
    with Cons False d show ?thesis by (auto split: option.splits if_splits)
  qed (use Cons in auto)
qed simp

context kube_server
begin

lemma deleteDeploymentsExcept_effect:
  assumes "deleteDeploymentsExcept api opts n keep w = (r, w')" "names_unique (v_deps w)"
  shows "keeps_others v_deps (owned (Namespace opts) n keep) w w' \<and>
         (r = None \<longrightarrow> removed_all v_deps (owned (Namespace opts) n keep) w') \<and>
         v_svcs w' = v_svcs w \<and> v_pods w' = v_pods w"
proof -
  obtain l w1 where l: "deployments_list api (Namespace opts) (ManagedLabels n) w = (l, w1)" by fastforce
  note frame = untouchedD [OF deployments_frame(1) l] untouchedD [OF deployments_frame(2) l]
  have v: "v_deps w1 = v_deps w" using deps.list_view [of "Namespace opts" "ManagedLabels n" w] l by simp
  show ?thesis
  proof (cases l)
    case (Inl e)
    with assms l frame v show ?thesis
      by (auto simp: deleteDeploymentsExcept_def managedListOptions_def keeps_others_def)
  next
    case (Inr xs)
    with assms l have d: "delete_each (deployments_delete api (Namespace opts)) ''deployment'' keep xs w1 = (r, w')"
      by (simp add: deleteDeploymentsExcept_def managedListOptions_def)
    show ?thesis
      using deps.list_delete_effect [OF l [unfolded Inr] assms(2) d] frame
        delete_each_frame [OF deployments_frame(3) d] delete_each_frame [OF deployments_frame(4) d]
      by (simp add: keeps_others_def removed_all_def)
  qed
qed

lemma deleteServicesExcept_effect:
  assumes "deleteServicesExcept api opts n keep w = (r, w')" "names_unique (v_svcs w)"
  shows "keeps_others v_svcs (owned (Namespace opts) n keep) w w' \<and>
         (r = None \<longrightarrow> removed_all v_svcs (owned (Namespace opts) n keep) w') \<and>
         v_deps w' = v_deps w \<and> v_pods w' = v_pods w"
proof -
  obtain l w1 where l: "services_list api (Namespace opts) (ManagedLabels n) w = (l, w1)" by fastforce
  note frame = untouchedD [OF services_frame(1) l] untouchedD [OF services_frame(2) l]
  have v: "v_svcs w1 = v_svcs w" using svcs.list_view [of "Namespace opts" "ManagedLabels n" w] l by simp
  show ?thesis
  proof (cases l)
    case (Inl e)
    with assms l frame v show ?thesis
      by (auto simp: deleteServicesExcept_def managedListOptions_def keeps_others_def)
  next
    case (Inr xs)
    with assms l have d: "delete_each (services_delete api (Namespace opts)) ''service'' keep xs w1 = (r, w')"
      by (simp add: deleteServicesExcept_def managedListOptions_def)
    show ?thesis
      using svcs.list_delete_effect [OF l [unfolded Inr] assms(2) d] frame
        delete_each_frame [OF services_frame(3) d] delete_each_frame [OF services_frame(4) d]
      by (simp add: keeps_others_def removed_all_def)
  qed
qed

lemma deletePrePullPod_effect:
  assumes "deletePrePullPod api ns p uid w = (r, w')"
  shows "keeps_others v_pods (\<lambda>x. at ns p x \<and> (case uid of None \<Rightarrow> True | Some u \<Rightarrow> UID x = u)) w w' \<and>
         (r = None \<longrightarrow> uid = None \<or> uid_precondition (pods_delete api) v_pods \<longrightarrow>
            removed_all v_pods (\<lambda>x. at ns p x \<and> (case uid of None \<Rightarrow> True | Some u \<Rightarrow> UID x = u)) w') \<and>
         v_deps w' = v_deps w \<and> v_svcs w' = v_svcs w"
proof -
  let ?d = "\<lparr>GracePeriodSeconds = Some 0, PreconditionUID = uid\<rparr>"
  obtain r1 where d: "pods_delete api ns p ?d w = (r1, w')"
    using assms by (cases "pods_delete api ns p ?d w")
      (auto simp: deletePrePullPod_def split: option.splits if_splits)
  note frame = untouchedD [OF pods_frame(3) d] untouchedD [OF pods_frame(4) d]
  have t: "delete_target ns p ?d = (\<lambda>x. at ns p x \<and> (case uid of None \<Rightarrow> True | Some u \<Rightarrow> UID x = u))"
    by (rule ext) (simp add: delete_target_def)
  have keeps: "keeps_others v_pods (delete_target ns p ?d) w w'"
    using pods.delete_subset [of ns p ?d w] pods.delete_keeps [of _ w ns p ?d] d
    by (auto simp: keeps_others_def)
  have "removed_all v_pods (delete_target ns p ?d) w'"
    if "r = None" "uid = None \<or> uid_precondition (pods_delete api) v_pods"
  proof (cases "r1 = Some Conflict")
    case True
    with assms d that have "uid \<noteq> None" by (auto simp: deletePrePullPod_def split: if_splits)
    with that True d uid_precondition.conflict_other [of "pods_delete api" v_pods ns p ?d w w'] keeps show ?thesis
      by (auto simp: removed_all_def keeps_others_def)
  next
    case False
    then have "r1 = None \<or> r1 = Some NotFound"
      using assms d that by (auto simp: deletePrePullPod_def split: option.splits if_splits)
    from pods.delete_gone [OF d this] show ?thesis by (simp add: removed_all_def)
  qed
  with keeps frame show ?thesis by (simp add: t)
qed

lemma Teardown_effect:
  assumes "Teardown api V opts n w = (r, w')" "IsLabelValue V n = []"
    and "names_unique (v_deps w)" "names_unique (v_svcs w)"
  shows "keeps_others v_svcs (owned (Namespace opts) n []) w w' \<and>
         keeps_others v_deps (owned (Namespace opts) n []) w w' \<and>
         keeps_others v_pods (at (Namespace opts) (PrePullPodName n)) w w' \<and>
         (r = None \<longrightarrow> removed_all v_svcs (owned (Namespace opts) n []) w' \<and>
            removed_all v_deps (owned (Namespace opts) n []) w' \<and>
            removed_all v_pods (at (Namespace opts) (PrePullPodName n)) w')"
proof -
  obtain e1 w1 where 1: "deleteServicesExcept api opts n [] w = (e1, w1)" by fastforce
  obtain e2 w2 where 2: "deleteDeploymentsExcept api opts n [] w1 = (e2, w2)" by fastforce
  obtain e3 w3 where 3: "deletePrePullPod api (Namespace opts) (PrePullPodName n) None w2 = (e3, w3)" by fastforce
  have r: "r = errors_Join [e1, e2, e3]" "w' = w3"
    using assms(1,2) 1 2 3 by (auto simp: Teardown_def)
  have s: "keeps_others v_svcs (owned (Namespace opts) n []) w w1"
      "e1 = None \<longrightarrow> removed_all v_svcs (owned (Namespace opts) n []) w1"
      "v_deps w1 = v_deps w" "v_pods w1 = v_pods w"
    using deleteServicesExcept_effect [OF 1 assms(4)] by auto
  then have d: "keeps_others v_deps (owned (Namespace opts) n []) w1 w2"
      "e2 = None \<longrightarrow> removed_all v_deps (owned (Namespace opts) n []) w2"
      "v_svcs w2 = v_svcs w1" "v_pods w2 = v_pods w1"
    using deleteDeploymentsExcept_effect [OF 2] assms(3) by auto
  have p: "keeps_others v_pods (at (Namespace opts) (PrePullPodName n)) w2 w3"
      "e3 = None \<longrightarrow> removed_all v_pods (at (Namespace opts) (PrePullPodName n)) w3"
      "v_deps w3 = v_deps w2" "v_svcs w3 = v_svcs w2"
    using deletePrePullPod_effect [OF 3] by auto
  have views: "keeps_others v_svcs q w w3 = keeps_others v_svcs q w w1"
      "keeps_others v_deps q' w w3 = keeps_others v_deps q' w1 w2"
      "keeps_others v_pods q'' w w3 = keeps_others v_pods q'' w2 w3"
      "removed_all v_svcs q w3 = removed_all v_svcs q w1"
      "removed_all v_deps q' w3 = removed_all v_deps q' w2" for q q' q''
    using s(3,4) d(3,4) p(3,4) by (simp_all add: keeps_others_def removed_all_def)
  have "e1 = None \<and> e2 = None \<and> e3 = None" if "r = None"
    using that r(1) errors_Join_None [of "[e1, e2, e3]"] by simp
  with s(1,2) d(1,2) p(1,2) show ?thesis unfolding r(2) views by blast
qed

end

section \<open>Properties\<close>

lemma removed_exactly:
  "keeps_others v p w w' \<Longrightarrow> removed_all v p w' \<Longrightarrow> set (v w') = {x \<in> set (v w). \<not> p x}"
  by (auto simp: keeps_others_def removed_all_def)

lemma keeps_othersD: "keeps_others v p w w' \<Longrightarrow> x \<in> set (v w) \<Longrightarrow> \<not> p x \<Longrightarrow> x \<in> set (v w')"
  by (simp add: keeps_others_def)

lemma not_owned: "ManagedNodeName x \<noteq> n \<Longrightarrow> \<not> owned ns n keep x"
  by (auto simp: owned_def dest: ManagedNodeName_selected)

text \<open>C10. A teardown that reports no error has removed every Service and Deployment labelled as
  an instance of the node, and the node's pre-pull pod, and nothing else: on any server that
  keeps the documented contract, the remaining objects are exactly those that are not the
  node's.\<close>

theorem Teardown_complete:
  assumes "kube_server api v_deps v_svcs v_pods"
    and "IsLabelValue V n = []"
    and "names_unique (v_deps w)" and "names_unique (v_svcs w)"
    and "Teardown api V opts n w = (None, w')"
  shows "set (v_svcs w') = {x \<in> set (v_svcs w). \<not> owned (Namespace opts) n [] x} \<and>
         set (v_deps w') = {x \<in> set (v_deps w). \<not> owned (Namespace opts) n [] x} \<and>
         set (v_pods w') = {x \<in> set (v_pods w). \<not> at (Namespace opts) (PrePullPodName n) x}"
proof -
  note effect = kube_server.Teardown_effect [OF assms(1,5,2,3,4)]
  have "set (v_svcs w') = {x \<in> set (v_svcs w). \<not> owned (Namespace opts) n [] x}"
    by (rule removed_exactly) (use effect in auto)
  moreover have "set (v_deps w') = {x \<in> set (v_deps w). \<not> owned (Namespace opts) n [] x}"
    by (rule removed_exactly) (use effect in auto)
  moreover have "set (v_pods w') = {x \<in> set (v_pods w). \<not> at (Namespace opts) (PrePullPodName n) x}"
    by (rule removed_exactly) (use effect in auto)
  ultimately show ?thesis by blast
qed

text \<open>C35. A teardown never removes an object of another node, whatever API calls fail: on any
  server that keeps the documented contract, every Service and Deployment that is not labelled
  as an instance of the node, and every pod except the node's pre-pull pod, is still there.\<close>

theorem Teardown_spares_others:
  assumes "kube_server api v_deps v_svcs v_pods"
    and "IsLabelValue V n = []"
    and "names_unique (v_deps w)" and "names_unique (v_svcs w)"
    and "Teardown api V opts n w = (r, w')"
  shows "(\<forall>x \<in> set (v_svcs w). ManagedNodeName x \<noteq> n \<longrightarrow> x \<in> set (v_svcs w')) \<and>
         (\<forall>x \<in> set (v_deps w). ManagedNodeName x \<noteq> n \<longrightarrow> x \<in> set (v_deps w')) \<and>
         (\<forall>x \<in> set (v_pods w). Name x \<noteq> PrePullPodName n \<longrightarrow> x \<in> set (v_pods w'))"
proof -
  note effect = kube_server.Teardown_effect [OF assms(1,5,2,3,4)]
  have "x \<in> set (v_svcs w')" if "x \<in> set (v_svcs w)" "ManagedNodeName x \<noteq> n" for x
    using effect that not_owned keeps_othersD by metis
  moreover have "x \<in> set (v_deps w')" if "x \<in> set (v_deps w)" "ManagedNodeName x \<noteq> n" for x
    using effect that not_owned keeps_othersD by metis
  moreover have "x \<in> set (v_pods w')" if "x \<in> set (v_pods w)" "Name x \<noteq> PrePullPodName n" for x
    using effect that keeps_othersD at_def by metis
  ultimately show ?thesis by blast
qed

definition example_deployment :: "string \<Rightarrow> string \<Rightarrow> deployment" where
  "example_deployment n h = \<lparr>Name = DeploymentName n, ObjNamespace = ''system'', UID = ''uid-'' @ n,
     Labels = ManagedLabels n, Annotations = [(annotationTemplateHash, h)], CreationTimestamp = 0,
     DeletionTimestamp = None, Generation = 2, SpecReplicas = Some 1, ProgressDeadlineSeconds = None,
     TemplateContainers = [\<lparr>CName = ''caddy'', CImage = ''caddy:old''\<rparr>], ObservedGeneration = 2,
     StReplicas = 1, UpdatedReplicas = 1, AvailableReplicas = 1, DepConditions = []\<rparr>"

definition two_nodes :: mem where
  "two_nodes = mem_empty\<lparr>m_deps := [example_deployment ''gone'' ''h'', example_deployment ''node1'' ''h'']\<rparr>"

lemma two_nodes_unique: "names_unique (m_deps two_nodes)" "names_unique (m_svcs two_nodes)"
  by (simp_all add: two_nodes_def names_unique_def mem_empty_def example_deployment_def DeploymentName_def)

lemmas teardown_eval = Teardown_def deleteServicesExcept_def deleteDeploymentsExcept_def deletePrePullPod_def
  errors_Join_def two_nodes_def example_deployment_def example_options_def managedListOptions_def
  selects_def ManagedLabels_eq label_consts DeploymentName_def map_get_def

lemma Teardown_two_nodes:
  "Teardown mem_api documented_validators example_options ''gone'' two_nodes =
     (None, mem_empty\<lparr>m_deps := [example_deployment ''node1'' ''h'']\<rparr>)"
  by (simp add: teardown_eval mem_eval documented_validators_def documented_check_def label_value_def
      char_class_defs List.map_filter_def)

theorem Teardown_complete_witness:
  "\<exists>w'. Teardown mem_api documented_validators example_options ''gone'' two_nodes = (None, w') \<and>
     set (m_deps w') = {x \<in> set (m_deps two_nodes). \<not> owned (Namespace example_options) ''gone'' [] x} \<and>
     set (m_deps w') = {example_deployment ''node1'' ''h''}"
proof -
  have "IsLabelValue documented_validators ''gone'' = []"
    by (simp add: dv.label_value_check label_value_def char_class_defs)
  from Teardown_complete [OF mem.kube_server_axioms this two_nodes_unique Teardown_two_nodes] show ?thesis
    by (simp add: Teardown_two_nodes)
qed

theorem Teardown_spares_others_witness:
  "\<exists>w'. Teardown mem_api documented_validators example_options ''gone''
          (two_nodes\<lparr>m_faults := [Some ''etcd unavailable'']\<rparr>) = (Some (ErrJoined [ErrApi ''failed to list services for node gone'' (ApiFailure ''etcd unavailable'')]), w') \<and>
        example_deployment ''node1'' ''h'' \<in> set (m_deps w')"
proof -
  let ?w = "two_nodes\<lparr>m_faults := [Some ''etcd unavailable'']\<rparr>"
  have l: "IsLabelValue documented_validators ''gone'' = []"
    by (simp add: dv.label_value_check label_value_def char_class_defs)
  have u: "names_unique (m_deps ?w)" "names_unique (m_svcs ?w)"
    using two_nodes_unique by simp_all
  obtain w' where t: "Teardown mem_api documented_validators example_options ''gone'' ?w =
      (Some (ErrJoined [ErrApi ''failed to list services for node gone'' (ApiFailure ''etcd unavailable'')]), w')"
    by (simp add: teardown_eval mem_eval documented_validators_def documented_check_def label_value_def
        char_class_defs List.map_filter_def)
  have "ManagedNodeName (example_deployment ''node1'' ''h'') \<noteq> ''gone''"
    by (simp add: example_deployment_def ManagedNodeName_def map_str_def)
  with Teardown_spares_others [OF mem.kube_server_axioms l u t] t show ?thesis
    by (auto simp: two_nodes_def)
qed

end
