(* ===== verification/Deployer.thy ===== *)
theory Deployer
  imports Cleanup
begin

text \<open>
  The second half of \<^verbatim>\<open>pkg/caddy/deployment.go\<close>: applying a node's Deployment and
  Service, finding the pod to configure, and reading the status of pods and Deployments.
\<close>

section \<open>Applying\<close>

definition ApplyDeployment ::
  "'s kube_api \<Rightarrow> validators \<Rightarrow> (pod_template \<Rightarrow> string) \<Rightarrow> deploy_options \<Rightarrow> string \<Rightarrow> 's \<Rightarrow> error option \<times> 's" where
  "ApplyDeployment api V marshal opts nodeName w =
     (case ValidateName ''instance label for node'' nodeName (IsLabelValue V) of
        Some e \<Rightarrow> (Some e, w)
      | None \<Rightarrow>
          (case deployments_apply api (deploymentApplyConfig marshal opts nodeName) applyOptions w of
             (Some e, w') \<Rightarrow> (Some (ErrApi (''failed to apply deployment '' @ DeploymentName nodeName) e), w')
           | (None, w') \<Rightarrow> (None, w')))"

definition DeleteStaleDeployments :: "'s kube_api \<Rightarrow> deploy_options \<Rightarrow> string \<Rightarrow> 's \<Rightarrow> error option \<times> 's" where
  "DeleteStaleDeployments api opts nodeName w =
     deleteDeploymentsExcept api opts nodeName (DeploymentName nodeName) w"

definition ApplyLoadBalancerService ::
  "'s kube_api \<Rightarrow> validators \<Rightarrow> deploy_options \<Rightarrow> string \<Rightarrow> string list \<Rightarrow> 's \<Rightarrow> error option \<times> 's" where
  "ApplyLoadBalancerService api V opts nodeName externalIPs w =
     (let serviceName = loadBalancerServiceName V nodeName in
      case services_apply api (loadBalancerServiceApplyConfig V (Namespace opts) nodeName externalIPs) applyOptions w of
        (Some e, w') \<Rightarrow> (Some (ErrApi (''failed to apply loadbalancer service '' @ serviceName) e), w')
      | (None, w') \<Rightarrow> deleteServicesExcept api opts nodeName serviceName w')"

definition EnsureLoadBalancerService ::
  "'s kube_api \<Rightarrow> validators \<Rightarrow> deploy_options \<Rightarrow> string \<Rightarrow> string list \<Rightarrow> 's \<Rightarrow> error option \<times> 's" where
  "EnsureLoadBalancerService api V opts nodeName externalIPs w =
     (if \<not> EnableCiliumLB opts then deleteServicesExcept api opts nodeName [] w
      else ApplyLoadBalancerService api V opts nodeName externalIPs w)"

definition ListDeployments ::
  "'s kube_api \<Rightarrow> deploy_options \<Rightarrow> 's \<Rightarrow> (error + deployment gomap) \<times> 's" where
  "ListDeployments api opts w =
     (case deployments_list api (Namespace opts)
             [(labelApp, labelAppValue), (labelCaddyManaged, labelManagedValue)] w of
        (Inl e, w') \<Rightarrow> (Inl (ErrApi ''failed to list Caddy deployments'' e), w')
      | (Inr items, w') \<Rightarrow> (Inr (fold (\<lambda>d m. map_put (Name d) d m) items []), w'))"

section \<open>The active pod\<close>

record caddy_pod =
  cp_Name :: string
  cp_IP :: string
  cp_ContainerID :: string

definition no_pod :: caddy_pod where
  "no_pod = \<lparr>cp_Name = [], cp_IP = [], cp_ContainerID = []\<rparr>"

definition IsActivePod :: "pod \<Rightarrow> bool" where
  "IsActivePod p \<longleftrightarrow> DeletionTimestamp p = None \<and> Phase p \<noteq> PodFailed \<and> Phase p \<noteq> PodSucceeded"

fun newest_active :: "pod option \<Rightarrow> pod list \<Rightarrow> pod option" where
  "newest_active selected [] = selected"
| "newest_active selected (p # ps) =
     (if \<not> IsActivePod p then newest_active selected ps
      else case selected of
             None \<Rightarrow> newest_active (Some p) ps
           | Some s \<Rightarrow>
               if CreationTimestamp p > CreationTimestamp s then newest_active (Some p) ps
               else if CreationTimestamp p = CreationTimestamp s \<and> Name p > Name s then newest_active (Some p) ps
               else newest_active (Some s) ps)"

definition selectNewestActivePod :: "pod list \<Rightarrow> pod option" where
  "selectNewestActivePod pods = newest_active None pods"

fun started_container :: "container_status list \<Rightarrow> string" where
  "started_container [] = []"
| "started_container (status # rest) =
     (if CsName status = caddyContainerName \<and> Started status = Some True then ContainerID status
      else started_container rest)"

definition startedCaddyContainerID :: "pod \<Rightarrow> string" where
  "startedCaddyContainerID p = started_container (ContainerStatuses p)"

definition FindActivePod ::
  "'s kube_api \<Rightarrow> deploy_options \<Rightarrow> string \<Rightarrow> 's \<Rightarrow> (error + caddy_pod) \<times> 's" where
  "FindActivePod api opts nodeName w =
     (case pods_list api (Namespace opts) (managedListOptions nodeName) w of
        (Inl e, w') \<Rightarrow> (Inl (ErrApi (''failed to list pods for node '' @ nodeName) e), w')
      | (Inr items, w') \<Rightarrow>
          (case selectNewestActivePod items of
             None \<Rightarrow> (Inr no_pod, w')
           | Some p \<Rightarrow> (Inr \<lparr>cp_Name = Name p, cp_IP = PodIP p,
                              cp_ContainerID = startedCaddyContainerID p\<rparr>, w')))"

section \<open>Status of pods and Deployments\<close>

fun unscheduled :: "pod_condition_type condition list \<Rightarrow> string option" where
  "unscheduled [] = None"
| "unscheduled (c # cs) =
     (if CondType c = PodScheduled \<and> CondStatus c = ConditionFalse
      then Some (CondReason c @ '': '' @ CondMessage c) else unscheduled cs)"

fun stuck_waiting :: "container_status list \<Rightarrow> string option" where
  "stuck_waiting [] = None"
| "stuck_waiting (s # ss) =
     (case Waiting s of
        Some (reason, message) \<Rightarrow>
          if reason \<noteq> ''ContainerCreating'' then Some (reason @ '': '' @ message) else stuck_waiting ss
      | None \<Rightarrow> stuck_waiting ss)"

definition PodProblem :: "pod \<Rightarrow> string" where
  "PodProblem p =
     (if Phase p = PodFailed then ''pod failed: '' @ PodReason p
      else case unscheduled (PodConditions p) of
             Some m \<Rightarrow> m
           | None \<Rightarrow> (case stuck_waiting (ContainerStatuses p) of Some m \<Rightarrow> m | None \<Rightarrow> []))"

definition no_condition :: "deployment_condition_type condition" where
  "no_condition = \<lparr>CondType = DeploymentConditionOther [], CondStatus = StatusOther [], CondReason = [],
     CondMessage = [], LastTransitionTime = 0\<rparr>"

definition deploymentCondition ::
  "deployment \<Rightarrow> deployment_condition_type \<Rightarrow> deployment_condition_type condition" where
  "deploymentCondition d conditionType =
     (case List.find (\<lambda>c. CondType c = conditionType) (DepConditions d) of
        Some c \<Rightarrow> c | None \<Rightarrow> no_condition)"

definition seconds_duration :: "int32 \<Rightarrow> 64 word" where
  \<comment> \<open>\<open>time.Duration(n) * time.Second\<close> on 64-bit integers\<close>
  "seconds_duration n = scast n * of_int second"

definition isPastProgressDeadline ::
  "deployment \<Rightarrow> deployment_condition_type condition \<Rightarrow> time \<Rightarrow> bool" where
  "isPastProgressDeadline d available now =
     (case ProgressDeadlineSeconds d of
        None \<Rightarrow> False
      | Some deadline \<Rightarrow>
          ObservedGeneration d \<ge> Generation d \<and>
          time_Sub now (LastTransitionTime available) > sint (seconds_duration deadline))"

definition DeploymentProblem :: "deployment \<Rightarrow> time \<Rightarrow> string" where
  "DeploymentProblem d now =
     (let failure = deploymentCondition d DeploymentReplicaFailure;
          progressing = deploymentCondition d DeploymentProgressing;
          available = deploymentCondition d DeploymentAvailable
      in if CondStatus failure = ConditionTrue then CondReason failure @ '': '' @ CondMessage failure
         else if CondStatus progressing = ConditionFalse then CondReason progressing @ '': '' @ CondMessage progressing
         else if CondStatus available = ConditionFalse \<and> isPastProgressDeadline d available now
              then CondReason available @ '': '' @ CondMessage available
         else [])"

section \<open>Selection of the newest active pod\<close>

definition older_eq :: "pod \<Rightarrow> pod \<Rightarrow> bool" where
  "older_eq q p \<longleftrightarrow>
     CreationTimestamp q < CreationTimestamp p \<or> CreationTimestamp q = CreationTimestamp p \<and> Name q \<le> Name p"

lemma older_eq_trans: "older_eq a b \<Longrightarrow> older_eq b c \<Longrightarrow> older_eq a c"
  by (auto simp: older_eq_def)

lemma older_eq_refl [simp]: "older_eq a a"
  by (simp add: older_eq_def)

lemma older_eq_total: "older_eq a b \<or> older_eq b a"
  by (auto simp: older_eq_def)

lemma newest_active_spec:
  "case newest_active sel ps of
     None \<Rightarrow> sel = None \<and> (\<forall>q \<in> set ps. \<not> IsActivePod q)
   | Some p \<Rightarrow> (sel = Some p \<or> p \<in> set ps \<and> IsActivePod p) \<and>
       (\<forall>q \<in> set ps. IsActivePod q \<longrightarrow> older_eq q p) \<and> (\<forall>s. sel = Some s \<longrightarrow> older_eq s p)"
proof (induction sel ps rule: newest_active.induct)
  case (2 sel p ps)
  show ?case
  proof (cases "IsActivePod p")
    case True
    show ?thesis
    proof (cases sel)
      case None
      with True "2.IH"(2) show ?thesis by (auto split: option.splits)
    next
      case (Some s)
      show ?thesis
      proof (cases "CreationTimestamp p > CreationTimestamp s \<or>
          CreationTimestamp p = CreationTimestamp s \<and> Name p > Name s")
        case newer: True
        then have "older_eq s p" by (auto simp: older_eq_def)
        with True Some newer "2.IH"(3,4) show ?thesis
          by (auto split: option.splits dest: older_eq_trans)
      next
        case False
        then have "older_eq p s" by (auto simp: older_eq_def not_less)
        with True Some False "2.IH"(5) show ?thesis
          by (auto split: option.splits dest: older_eq_trans)
      qed
    qed
  qed (use "2.IH"(1) in \<open>auto split: option.splits\<close>)
qed (auto split: option.splits)

text \<open>C23. The pod that receives the configuration is the newest active one: it is an active pod of
  the list, every active pod was created earlier or at the same time with a name that is not
  greater, none is chosen only when no pod is active; and the choice does not depend on the
  order in which the API lists the pods.\<close>

theorem selectNewestActivePod_newest:
  "(selectNewestActivePod ps = None \<longleftrightarrow> (\<forall>q \<in> set ps. \<not> IsActivePod q)) \<and>
   (\<forall>p. selectNewestActivePod ps = Some p \<longrightarrow>
      p \<in> set ps \<and> IsActivePod p \<and> (\<forall>q \<in> set ps. IsActivePod q \<longrightarrow> older_eq q p)) \<and>
   (set ps = set qs \<and> inj_on (\<lambda>p. (CreationTimestamp p, Name p)) (set ps) \<longrightarrow>
      selectNewestActivePod ps = selectNewestActivePod qs)"
proof -
  have spec: "case selectNewestActivePod xs of
      None \<Rightarrow> (\<forall>q \<in> set xs. \<not> IsActivePod q)
    | Some p \<Rightarrow> p \<in> set xs \<and> IsActivePod p \<and> (\<forall>q \<in> set xs. IsActivePod q \<longrightarrow> older_eq q p)" for xs
    using newest_active_spec [of None xs] by (auto simp: selectNewestActivePod_def split: option.splits)
  have "selectNewestActivePod ps = selectNewestActivePod qs"
    if same: "set ps = set qs" and inj: "inj_on (\<lambda>p. (CreationTimestamp p, Name p)) (set ps)"
  proof (cases "selectNewestActivePod ps")
    case None
    with spec [of ps] spec [of qs] same show ?thesis by (auto split: option.splits)
  next
    case (Some p)
    with spec [of ps] spec [of qs] same obtain q where q: "selectNewestActivePod qs = Some q"
      by (auto split: option.splits)
    with Some spec [of ps] spec [of qs] same have "older_eq p q" "older_eq q p" "p \<in> set ps" "q \<in> set ps"
      by auto
    then have "p = q" using inj by (auto simp: older_eq_def inj_on_def)
    with Some q show ?thesis by simp
  qed
  with spec [of ps] show ?thesis by (auto split: option.splits)
qed

definition pod_at :: "string \<Rightarrow> time \<Rightarrow> pod_phase \<Rightarrow> pod" where
  "pod_at n t ph = example_pod\<lparr>Name := n, CreationTimestamp := t, Phase := ph\<rparr>"

theorem selectNewestActivePod_newest_witness:
  "selectNewestActivePod [pod_at ''aaa'' 5 (PhaseOther ''Running''), pod_at ''bbb'' 5 (PhaseOther ''Running''),
     pod_at ''ccc'' 9 PodFailed] = Some (pod_at ''bbb'' 5 (PhaseOther ''Running'')) \<and>
   older_eq (pod_at ''aaa'' 5 (PhaseOther ''Running'')) (pod_at ''bbb'' 5 (PhaseOther ''Running''))"
proof -
  let ?ps = "[pod_at ''aaa'' 5 (PhaseOther ''Running''), pod_at ''bbb'' 5 (PhaseOther ''Running''),
     pod_at ''ccc'' 9 PodFailed]"
  have sel: "selectNewestActivePod ?ps = Some (pod_at ''bbb'' 5 (PhaseOther ''Running''))"
    by (simp add: selectNewestActivePod_def IsActivePod_def pod_at_def example_pod_def)
  moreover have "IsActivePod (pod_at ''aaa'' 5 (PhaseOther ''Running''))"
    by (simp add: IsActivePod_def pod_at_def example_pod_def)
  ultimately show ?thesis
    using selectNewestActivePod_newest [of ?ps ?ps] by auto
qed

section \<open>Progress deadline\<close>

lemma sint_int32_bounds: "- (2 ^ 31) \<le> sint (n :: int32) \<and> sint n < 2 ^ 31"
  using sint_ge [of n] sint_lt [of n] by simp

lemma sint_seconds_duration: "sint (seconds_duration n) = sint n * second"
proof -
  have eq: "seconds_duration n = of_int (sint n * second)"
    by (simp add: seconds_duration_def)
  have "- (2 ^ 63) \<le> sint n * second \<and> sint n * second < 2 ^ 63"
    using sint_int32_bounds [of n] by (simp add: second_def)
  then show ?thesis
    unfolding eq signed_of_int by (simp add: signed_take_bit_int_eq_self)
qed

text \<open>C39. The progress-deadline test computes with 64-bit nanoseconds without overflow: for every
  32-bit number of seconds in the Deployment's spec it holds exactly when the Deployment has a
  deadline, its status is up to date, and the time since the last transition exceeds that many
  seconds as exact integers.\<close>

theorem isPastProgressDeadline_exact:
  "isPastProgressDeadline d c now \<longleftrightarrow>
     (\<exists>n. ProgressDeadlineSeconds d = Some n \<and> Generation d \<le> ObservedGeneration d \<and>
          sint n * second < now - LastTransitionTime c)"
proof -
  have "sint n * second < time_Sub now t \<longleftrightarrow> sint n * second < now - t" for n :: int32 and t
    using sint_int32_bounds [of n] by (auto simp: time_Sub_def second_def)
  then show ?thesis
    by (auto simp: isPastProgressDeadline_def sint_seconds_duration split: option.splits)
qed

section \<open>Effects on the server\<close>

lemma ApplyDeployment_cases:
  assumes "ApplyDeployment api V marshal opts n w = (r, w')"
  obtains (invalid) "IsLabelValue V n \<noteq> []" "r \<noteq> None" "w' = w"
  | (applied) r1 where "IsLabelValue V n = []"
      "deployments_apply api (deploymentApplyConfig marshal opts n) applyOptions w = (r1, w')"
      "r = None \<longleftrightarrow> r1 = None"
  using assms
  by (cases "ValidateName ''instance label for node'' n (IsLabelValue V)";
      cases "deployments_apply api (deploymentApplyConfig marshal opts n) applyOptions w")
    (auto simp: ApplyDeployment_def ValidateName_def Let_def split: option.splits if_splits)

lemma deploymentApplyConfig_meta [simp]:
  "ApName (deploymentApplyConfig marshal opts n) = DeploymentName n"
  "ApNamespace (deploymentApplyConfig marshal opts n) = Namespace opts"
  "ApLabels (deploymentApplyConfig marshal opts n) = ManagedLabels n"
  "ApAnnotations (deploymentApplyConfig marshal opts n) = [(annotationTemplateHash, TemplateHash marshal opts n)]"
  by (simp_all add: deploymentApplyConfig_def TemplateHash_def Let_def)

lemma loadBalancerServiceApplyConfig_meta [simp]:
  "ApName (loadBalancerServiceApplyConfig V ns n ips) = loadBalancerServiceName V n"
  "ApNamespace (loadBalancerServiceApplyConfig V ns n ips) = ns"
  "ApLabels (loadBalancerServiceApplyConfig V ns n ips) = ManagedLabels n"
  by (simp_all add: loadBalancerServiceApplyConfig_def)

lemma carries_ManagedLabels: "carries ls (ManagedLabels n) \<Longrightarrow> selects (ManagedLabels n) ls"
  by (simp add: carries_def selects_ManagedLabels)

lemma loadBalancerServiceName_nonempty: "loadBalancerServiceName V n \<noteq> []"
  by (cases rule: loadBalancerServiceName_cases [of V n]) auto

context kube_server
begin

lemma ApplyDeployment_effect:
  assumes "ApplyDeployment api V marshal opts n w = (r, w')"
  shows "v_svcs w' = v_svcs w \<and> v_pods w' = v_pods w \<and>
         (\<forall>d. \<not> at (Namespace opts) (DeploymentName n) d \<longrightarrow> (d \<in> set (v_deps w') \<longleftrightarrow> d \<in> set (v_deps w))) \<and>
         (r = None \<longrightarrow> (\<exists>d \<in> set (v_deps w'). at (Namespace opts) (DeploymentName n) d \<and>
            selects (ManagedLabels n) (Labels d) \<and> AppliedTemplateHash d = TemplateHash marshal opts n))"
  using assms
proof (cases rule: ApplyDeployment_cases)
  case (applied r1)
  note a = applied(2)
  have "AppliedTemplateHash d = TemplateHash marshal opts n"
    if "carries (Annotations d) [(annotationTemplateHash, TemplateHash marshal opts n)]" for d :: deployment
    using that by (simp add: AppliedTemplateHash_def carries_def map_str_def map_get_def)
  moreover have "\<exists>d \<in> set (v_deps w'). at (Namespace opts) (DeploymentName n) d \<and>
      carries (Labels d) (ManagedLabels n) \<and>
      carries (Annotations d) [(annotationTemplateHash, TemplateHash marshal opts n)]" if "r = None"
    using dep_ap.apply_done [of "deploymentApplyConfig marshal opts n" applyOptions w w'] a applied(3) that by simp
  moreover have "d \<in> set (v_deps w') \<longleftrightarrow> d \<in> set (v_deps w)"
    if "\<not> at (Namespace opts) (DeploymentName n) d" for d
    using dep_ap.apply_other [of "deploymentApplyConfig marshal opts n" d applyOptions w] a that by simp
  ultimately show ?thesis
    using untouchedD [OF deployments_frame(5) a] untouchedD [OF deployments_frame(6) a]
      carries_ManagedLabels by blast
qed auto

lemma ApplyLoadBalancerService_effect:
  assumes "ApplyLoadBalancerService api V opts n ips w = (None, w')" "names_unique (v_svcs w)"
  defines "lb \<equiv> loadBalancerServiceName V n"
  shows "removed_all v_svcs (owned (Namespace opts) n lb) w' \<and>
         (\<exists>x \<in> set (v_svcs w'). at (Namespace opts) lb x \<and> selects (ManagedLabels n) (Labels x)) \<and>
         (\<forall>x. ManagedNodeName x \<noteq> n \<and> \<not> at (Namespace opts) lb x \<longrightarrow>
            (x \<in> set (v_svcs w') \<longleftrightarrow> x \<in> set (v_svcs w)))"
proof -
  let ?a = "loadBalancerServiceApplyConfig V (Namespace opts) n ips"
  obtain w1 where a: "services_apply api ?a applyOptions w = (None, w1)"
    and d: "deleteServicesExcept api opts n lb w1 = (None, w')"
    using assms(1) by (cases "services_apply api ?a applyOptions w")
      (auto simp: ApplyLoadBalancerService_def lb_def Let_def split: option.splits)
  have u: "names_unique (v_svcs w1)"
    using svc_ap.apply_unique [of w ?a applyOptions] assms(2) a by simp
  obtain x where x: "x \<in> set (v_svcs w1)" "at (Namespace opts) lb x" "carries (Labels x) (ManagedLabels n)"
    using svc_ap.apply_done [OF a] by (auto simp: lb_def)
  have effect: "keeps_others v_svcs (owned (Namespace opts) n lb) w1 w'"
    "removed_all v_svcs (owned (Namespace opts) n lb) w'"
    using deleteServicesExcept_effect [OF d u] by auto
  have "\<not> owned (Namespace opts) n lb x" using x(2) by (simp add: owned_def at_def)
  with effect x have "x \<in> set (v_svcs w')" by (blast dest: keeps_othersD)
  moreover have "y \<in> set (v_svcs w') \<longleftrightarrow> y \<in> set (v_svcs w)"
    if "ManagedNodeName y \<noteq> n" "\<not> at (Namespace opts) lb y" for y
    using svc_ap.apply_other [of ?a y applyOptions w] a that effect(1) not_owned [OF that(1)]
    by (auto simp: lb_def keeps_others_def)
  ultimately show ?thesis using effect(2) x(2,3) carries_ManagedLabels by blast
qed

end

text \<open>C30. Once the LoadBalancer Services of a node are in place without error, the node owns exactly
  the Services its mode calls for: with the Cilium load balancer one Service, the one named by
  \<^verbatim>\<open>loadBalancerServiceName\<close>, and without it none; Services that belong to other nodes are the
  same as before. This covers switching the mode or the naming scheme of an existing
  installation.\<close>

theorem EnsureLoadBalancerService_exact:
  assumes server: "kube_server api v_deps v_svcs v_pods"
    and unique: "names_unique (v_svcs w)"
    and run: "EnsureLoadBalancerService api V opts n ips w = (None, w')"
  shows "(\<forall>x \<in> set (v_svcs w'). owned (Namespace opts) n [] x \<longrightarrow>
            EnableCiliumLB opts \<and> Name x = loadBalancerServiceName V n) \<and>
         (EnableCiliumLB opts \<longrightarrow> (\<exists>x \<in> set (v_svcs w'). owned (Namespace opts) n [] x)) \<and>
         (\<forall>x. ManagedNodeName x \<noteq> n \<and> Name x \<noteq> loadBalancerServiceName V n \<longrightarrow>
            (x \<in> set (v_svcs w') \<longleftrightarrow> x \<in> set (v_svcs w)))"
proof (cases "EnableCiliumLB opts")
  case False
  with run have d: "deleteServicesExcept api opts n [] w = (None, w')"
    by (simp add: EnsureLoadBalancerService_def)
  from kube_server.deleteServicesExcept_effect [OF server d unique]
  have effect: "keeps_others v_svcs (owned (Namespace opts) n []) w w'"
    "removed_all v_svcs (owned (Namespace opts) n []) w'" by auto
  have "x \<in> set (v_svcs w') \<longleftrightarrow> x \<in> set (v_svcs w)" if "ManagedNodeName x \<noteq> n" for x
    using effect(1) not_owned [OF that] by (auto simp: keeps_others_def)
  with False effect(2) show ?thesis by (simp add: removed_all_def)
next
  case True
  with run have a: "ApplyLoadBalancerService api V opts n ips w = (None, w')"
    by (simp add: EnsureLoadBalancerService_def)
  note effect = kube_server.ApplyLoadBalancerService_effect [OF server a unique]
  have "owned (Namespace opts) n [] x"
    if "at (Namespace opts) (loadBalancerServiceName V n) x" "selects (ManagedLabels n) (Labels x)" for x :: service
    using that loadBalancerServiceName_nonempty [of V n] by (auto simp: owned_def at_def)
  with effect have "\<exists>x \<in> set (v_svcs w'). owned (Namespace opts) n [] x" by blast
  moreover have "Name x = loadBalancerServiceName V n"
    if "x \<in> set (v_svcs w')" "owned (Namespace opts) n [] x" for x
    using effect that by (auto simp: removed_all_def owned_def)
  moreover have "x \<in> set (v_svcs w') \<longleftrightarrow> x \<in> set (v_svcs w)"
    if "ManagedNodeName x \<noteq> n" "Name x \<noteq> loadBalancerServiceName V n" for x
  proof -
    have "\<not> at (Namespace opts) (loadBalancerServiceName V n) x" using that(2) by (simp add: at_def)
    with effect that(1) show ?thesis by blast
  qed
  ultimately show ?thesis using True by simp
qed

definition stale_service :: service where
  "stale_service = \<lparr>Name = ''caddy-node1-lb'', ObjNamespace = ''system'', UID = ''s1'',
     Labels = ManagedLabels ''node1'', Annotations = [], CreationTimestamp = 0,
     DeletionTimestamp = None, Generation = 1\<rparr>"

theorem EnsureLoadBalancerService_exact_witness:
  "\<exists>w'. EnsureLoadBalancerService mem_api documented_validators (example_options\<lparr>EnableCiliumLB := True\<rparr>)
          ''node1'' [''203.0.113.5''] (mem_empty\<lparr>m_svcs := [stale_service]\<rparr>) = (None, w') \<and>
        map Name (m_svcs w') = [''caddy-node1-loadbalancer''] \<and>
        (\<forall>x \<in> set (m_svcs w'). owned ''system'' ''node1'' [] x \<longrightarrow>
           Name x = loadBalancerServiceName documented_validators ''node1'')"
proof -
  let ?opts = "example_options\<lparr>EnableCiliumLB := True\<rparr>" and ?w = "mem_empty\<lparr>m_svcs := [stale_service]\<rparr>"
  have lb: "loadBalancerServiceName documented_validators ''node1'' = ''caddy-node1-loadbalancer''"
    by (simp add: loadBalancerServiceName_def DeploymentName_def dv.dns1035_label_check dns1035_label_def
        char_class_defs)
  obtain w' where run: "EnsureLoadBalancerService mem_api documented_validators ?opts ''node1'' [''203.0.113.5''] ?w = (None, w')"
    and names: "map Name (m_svcs w') = [''caddy-node1-loadbalancer'']"
    by (simp add: EnsureLoadBalancerService_def ApplyLoadBalancerService_def deleteServicesExcept_def
        managedListOptions_def lb loadBalancerServiceApplyConfig_def example_options_def stale_service_def
        mem_eval selects_def ManagedLabels_eq map_get_def label_consts map_put_def)
  have "names_unique (m_svcs ?w)" by (simp add: names_unique_def)
  from EnsureLoadBalancerService_exact [OF mem.kube_server_axioms this run] run names show ?thesis
    by (simp add: example_options_def)
qed

end
