(* ===== verification/Ctrl_State.thy ===== *)
theory Ctrl_State
  imports Aggregator Deployer
begin

text \<open>
  The types of \<^verbatim>\<open>pkg/controller/controller.go\<close>: the configuration and the controller's
  state. Everything the controller reaches outside the repository is the parameter \<open>env\<close>: the
  API server, the Caddy instances, the informer caches, apimachinery's validators, the JSON
  encoding of pod templates, the clock and the ConfigMap size limit. The work queue of client-go
  is represented by the calls made on it, in order (\<open>queue_call\<close>). \<open>world\<close> is the state of the
  API server and the Caddy instances.
\<close>

record config =
  Deploy :: deploy_options
  NodeLabel :: string
  BaseConfigMapName :: string
  CfgBootConfigMapName :: string
  CfgNamespace :: string
  ConfigResyncInterval :: int
  ForceReload :: bool
  ExternalEndpoints :: "string list gomap"
  ExternalEnable :: bool
  ExternalLabel :: string
  ExternalAllowNamespaces :: "string list"
  ExternalDenyNamespaces :: "string list"

definition mirrorKey :: string where "mirrorKey = ''mirror/publish''"
definition workerCount :: nat where "workerCount = 4"
definition requeueInterval :: int where "requeueInterval = 5 * second"
definition prePullRetryInterval :: int where "prePullRetryInterval = minute"

record pushRecord =
  pr_digest :: string
  pr_containerID :: string

datatype queue_call =
    QAdd string
  | QAddAfter string int
  | QAddRateLimited string
  | QForget string
  | QDone string
  | QShutDown

record 's env =
  kube :: "'s kube_api"
  caddy :: "'s admin_env"
  caches :: listers
  checks :: validators
  marshal :: "pod_template \<Rightarrow> string"
  clock :: time
  maxSecretSize :: nat

record 's controller =
  cfg :: config
  agg :: aggregator
  nodeSelector :: "labels \<Rightarrow> bool"
  queue :: "queue_call list"
  pushState :: "pushRecord gomap"
  world :: 's

definition enqueue :: "queue_call \<Rightarrow> 's controller \<Rightarrow> 's controller" where
  "enqueue q c = c\<lparr>queue := queue c @ [q]\<rparr>"

definition on_world :: "('s \<Rightarrow> 'r \<times> 's) \<Rightarrow> 's controller \<Rightarrow> 'r \<times> 's controller" where
  "on_world call c = (let (r, w') = call (world c) in (r, c\<lparr>world := w'\<rparr>))"

lemma on_world_cases:
  assumes "on_world call c = (r, c')"
  obtains w' where "call (world c) = (r, w')" "c' = c\<lparr>world := w'\<rparr>"
  using assms by (cases "call (world c)") (auto simp: on_world_def)

lemma enqueue_simps [simp]:
  "world (enqueue q c) = world c" "cfg (enqueue q c) = cfg c" "agg (enqueue q c) = agg c"
  "pushState (enqueue q c) = pushState c" "nodeSelector (enqueue q c) = nodeSelector c"
  "queue (enqueue q c) = queue c @ [q]"
  by (simp_all add: enqueue_def)

section \<open>Managed nodes\<close>

definition isManagedNode :: "'s controller \<Rightarrow> node \<Rightarrow> bool" where
  "isManagedNode c n = nodeSelector c (Labels n)"

definition enqueueManagedNodes :: "'s env \<Rightarrow> 's controller \<Rightarrow> 's controller" where
  "enqueueManagedNodes E c =
     (case nodes_list (caches E) (nodeSelector c) of
        Inl _ \<Rightarrow> c
      | Inr nodes \<Rightarrow> fold (\<lambda>n. enqueue (QAdd (Name n))) nodes c)"

lemma fold_enqueue: "fold (\<lambda>n. enqueue (f n)) ns c = c\<lparr>queue := queue c @ map f ns\<rparr>"
  by (induction ns arbitrary: c) (simp_all add: enqueue_def)

lemma enqueueManagedNodes_eq:
  "enqueueManagedNodes E c =
     c\<lparr>queue := queue c @
        (case nodes_list (caches E) (nodeSelector c) of Inl _ \<Rightarrow> [] | Inr nodes \<Rightarrow> map (\<lambda>n. QAdd (Name n)) nodes)\<rparr>"
  by (simp add: enqueueManagedNodes_def fold_enqueue split: sum.split)

section \<open>A small cluster to evaluate on\<close>

definition example_node :: "string \<Rightarrow> node" where
  "example_node n = \<lparr>Name = n, ObjNamespace = [], UID = ''node-'' @ n, Labels = [(''caddy'', ''true'')],
     Annotations = [], CreationTimestamp = 0, DeletionTimestamp = None, Generation = 1, Unschedulable = False,
     NodeConditions = [\<lparr>CondType = NodeReady, CondStatus = ConditionTrue, CondReason = [], CondMessage = [],
        LastTransitionTime = 0\<rparr>]\<rparr>"

definition example_config :: config where
  "example_config = \<lparr>Deploy = example_options, NodeLabel = ''caddy=true'', BaseConfigMapName = ''base'',
     CfgBootConfigMapName = ''boot'', CfgNamespace = ''system'', ConfigResyncInterval = 0, ForceReload = False,
     ExternalEndpoints = [], ExternalEnable = False, ExternalLabel = [], ExternalAllowNamespaces = [],
     ExternalDenyNamespaces = []\<rparr>"

definition example_caches :: "node list \<Rightarrow> deployment list \<Rightarrow> listers" where
  "example_caches nodes deps = \<lparr>
     nodes_get = (\<lambda>n. case List.find (\<lambda>x. Name x = n) nodes of Some x \<Rightarrow> Inr x | None \<Rightarrow> Inl NotFound),
     nodes_list = (\<lambda>sel. Inr (filter (\<lambda>x. sel (Labels x)) nodes)),
     cached_deployment = (\<lambda>ns n. case List.find (at ns n) deps of Some d \<Rightarrow> Inr d | None \<Rightarrow> Inl NotFound),
     cached_pod = (\<lambda>ns n. Inl NotFound),
     cached_pods = (\<lambda>ns sel. Inr [])\<rparr>"

definition example_env :: "node list \<Rightarrow> deployment list \<Rightarrow> mem env" where
  \<comment> \<open>Caddy answers 400 to the configuration \<open>bad\<close> and 200 to any other\<close>
  "example_env nodes deps = \<lparr>
     kube = mem_api,
     caddy = \<lparr>http_do = (\<lambda>r w. (Response (if ReqBody r = ''bad'' @ nl then 400 else 200) (ReqBody r), w)),
       url_valid = (\<lambda>_. True), decode_adaptation = Inr,
       decode_admin = (\<lambda>_. Inr \<lparr>Listen = adminListen, EnforceOrigin = False, Origins = []\<rparr>)\<rparr>,
     caches = example_caches nodes deps,
     checks = documented_validators,
     marshal = (\<lambda>_. ''{}''),
     clock = 0,
     maxSecretSize = 1048576\<rparr>"

definition example_controller :: "mem \<Rightarrow> mem controller" where
  "example_controller w = \<lparr>cfg = example_config, agg = example_aggregator,
     nodeSelector = selects [(''caddy'', ''true'')], queue = [], pushState = [], world = w\<rparr>"

lemmas example_defs = example_node_def example_config_def example_caches_def example_env_def
  example_controller_def example_options_def

lemma example_env_simps:
  "kube (example_env nodes deps) = mem_api" "checks (example_env nodes deps) = documented_validators"
  "caches (example_env nodes deps) = example_caches nodes deps" "marshal (example_env nodes deps) = (\<lambda>_. ''{}'')"
  "clock (example_env nodes deps) = 0" "maxSecretSize (example_env nodes deps) = 1048576"
  by (simp_all add: example_env_def)

lemma example_controller_simps:
  "cfg (example_controller w) = example_config" "agg (example_controller w) = example_aggregator"
  "queue (example_controller w) = []" "pushState (example_controller w) = []" "world (example_controller w) = w"
  "nodeSelector (example_controller w) = selects [(''caddy'', ''true'')]" "Deploy example_config = example_options"
  "Name (example_node n) = n"
  by (simp_all add: example_controller_def example_config_def example_node_def)

lemmas example_sel = example_env_simps example_controller_simps

end
