(* ===== verification/Rollout.thy ===== *)
theory Rollout
  imports Ctrl_State
begin

text \<open>
  \<^verbatim>\<open>pkg/controller/rollout.go\<close>: when a node may be restarted with a new pod template.
  Log messages are left out; the texts that are computed for them (\<open>blockerProblem\<close>) are
  modelled, with \<open>None\<close> for a nil dereference.
\<close>

section \<open>Node status\<close>

record nodeRollout =
  r_name :: string
  r_isInService :: bool
  r_isPending :: bool
  r_isAvailable :: bool
  r_needsPrePull :: bool
  r_prePull :: "pod option"
  r_deployment :: "deployment option"

definition isInService :: "node \<Rightarrow> bool" where
  "isInService n =
     (if Unschedulable n then False
      else case List.find (\<lambda>c. CondType c = NodeReady) (NodeConditions n) of
             Some c \<Rightarrow> CondStatus c = ConditionTrue
           | None \<Rightarrow> False)"

definition isRolledOut :: "deployment \<Rightarrow> bool" where
  "isRolledOut d =
     (let replicas = (case SpecReplicas d of None \<Rightarrow> 1 | Some r \<Rightarrow> r)
      in ObservedGeneration d \<ge> Generation d \<and>
         StReplicas d = replicas \<and> UpdatedReplicas d = replicas \<and> AvailableReplicas d = replicas)"

definition caddyImageOf :: "deployment \<Rightarrow> string" where
  "caddyImageOf d = (case TemplateContainers d of [] \<Rightarrow> [] | c # _ \<Rightarrow> CImage c)"

definition hasPrePulled :: "nodeRollout \<Rightarrow> string \<Rightarrow> bool" where
  "hasPrePulled r img =
     (case r_prePull r of None \<Rightarrow> False | Some p \<Rightarrow> PrePullPodImage p = img \<and> IsImagePrePulled p)"

definition nodeRollout_of :: "'s env \<Rightarrow> config \<Rightarrow> node \<Rightarrow> deployment option \<Rightarrow> nodeRollout" where
  "nodeRollout_of E cf n dep =
     (let opts = Deploy cf;
          rollout = \<lparr>r_name = Name n, r_isInService = isInService n, r_isPending = False, r_isAvailable = True,
             r_needsPrePull = False,
             r_prePull = (case cached_pod (caches E) (CfgNamespace cf) (PrePullPodName (Name n)) of
                            Inr p \<Rightarrow> Some p | Inl _ \<Rightarrow> None),
             r_deployment = dep\<rparr>
      in case dep of
           None \<Rightarrow> rollout
         | Some d \<Rightarrow>
             let pending = AppliedTemplateHash d \<noteq> TemplateHash (marshal E) opts (Name n)
             in rollout\<lparr>r_isPending := pending, r_isAvailable := isRolledOut d,
                  r_needsPrePull := pending \<and> isInService n \<and> PrePullImage opts \<and> caddyImageOf d \<noteq> CaddyImage opts\<rparr>)"

definition cachedDeployment :: "'s env \<Rightarrow> config \<Rightarrow> string \<Rightarrow> deployment option" where
  "cachedDeployment E cf nodeName =
     (case cached_deployment (caches E) (CfgNamespace cf) (DeploymentName nodeName) of
        Inl _ \<Rightarrow> None | Inr d \<Rightarrow> Some d)"

section \<open>The decision to hold or admit\<close>

fun hold_scan :: "string \<Rightarrow> string \<Rightarrow> nodeRollout list \<Rightarrow>
    nodeRollout option \<times> nodeRollout option \<times> string \<Rightarrow>
    (string \<times> nodeRollout) + (nodeRollout option \<times> nodeRollout option \<times> string)" where
  "hold_scan selfName img [] acc = Inr acc"
| "hold_scan selfName img (node # fleet) (self, unavailable, firstPending) =
     (if r_needsPrePull node \<and> \<not> hasPrePulled node img then
        Inl (''waiting for the image pre-pull on node '' @ r_name node, node)
      else
        hold_scan selfName img fleet
          (if r_name node = selfName then Some node else self,
           if r_name node \<noteq> selfName \<and> \<not> r_isAvailable node then Some node else unavailable,
           if r_isPending node \<and> (firstPending = [] \<or> r_name node < firstPending) then r_name node
           else firstPending))"

definition rolloutHold :: "nodeRollout list \<Rightarrow> string \<Rightarrow> string \<Rightarrow> string \<times> nodeRollout option" where
  "rolloutHold fleet selfName img =
     (case hold_scan selfName img fleet (None, None, []) of
        Inl (reason, node) \<Rightarrow> (reason, Some node)
      | Inr (None, unavailable, firstPending) \<Rightarrow> (''node is cordoned or not ready'', None)
      | Inr (Some self, unavailable, firstPending) \<Rightarrow>
          if \<not> r_isPending self \<or> \<not> r_isAvailable self then ([], None)
          else (case unavailable of
                  Some u \<Rightarrow> (''waiting for node '' @ r_name u @ '' to become available'', Some u)
                | None \<Rightarrow>
                    if firstPending \<noteq> r_name self
                    then (''waiting for node '' @ firstPending @ '' to roll out first'', None)
                    else ([], None)))"

section \<open>Why a rollout is stuck\<close>

definition prePullProblem :: "nodeRollout \<Rightarrow> string \<Rightarrow> string" where
  "prePullProblem r img =
     (case r_prePull r of
        None \<Rightarrow> []
      | Some p \<Rightarrow> if PrePullPodImage p \<noteq> img then [] else PodProblem p)"

fun first_pod_problem :: "pod list \<Rightarrow> string option" where
  "first_pod_problem [] = None"
| "first_pod_problem (p # ps) =
     (if \<not> IsActivePod p then first_pod_problem ps
      else if PodProblem p \<noteq> [] then Some (PodProblem p) else first_pod_problem ps)"

definition caddyProblem :: "'s env \<Rightarrow> config \<Rightarrow> nodeRollout \<Rightarrow> string option" where
  \<comment> \<open>\<open>None\<close> is the panic of dereferencing a nil Deployment\<close>
  "caddyProblem E cf r =
     (case cached_pods (caches E) (CfgNamespace cf) (ManagedLabels (r_name r)) of
        Inl _ \<Rightarrow> Some []
      | Inr pods \<Rightarrow>
          (case first_pod_problem pods of
             Some m \<Rightarrow> Some m
           | None \<Rightarrow> map_option (\<lambda>d. DeploymentProblem d (clock E)) (r_deployment r)))"

definition blockerProblem :: "'s env \<Rightarrow> config \<Rightarrow> nodeRollout option \<Rightarrow> string \<Rightarrow> string option" where
  "blockerProblem E cf blocker img =
     (case blocker of
        None \<Rightarrow> Some []
      | Some b \<Rightarrow>
          if r_needsPrePull b \<and> \<not> hasPrePulled b img then Some (prePullProblem b img)
          else if \<not> r_isAvailable b then caddyProblem E cf b
          else Some [])"

section \<open>Pre-pull pods\<close>

definition isRetryablePrePull :: "pod \<Rightarrow> time \<Rightarrow> bool" where
  "isRetryablePrePull p now \<longleftrightarrow>
     Phase p = PodFailed \<and> \<not> IsImagePrePulled p \<and>
     time_Sub now (CreationTimestamp p) \<ge> prePullRetryInterval"

definition syncPrePullPod :: "'s env \<Rightarrow> nodeRollout \<Rightarrow> time \<Rightarrow> 's controller \<Rightarrow> error option \<times> 's controller" where
  "syncPrePullPod E rollout now c =
     (let opts = Deploy (cfg c) in
      case r_prePull rollout of
        Some p \<Rightarrow>
          let isKept = r_needsPrePull rollout \<and> PrePullPodImage p = CaddyImage opts \<and> \<not> isRetryablePrePull p now
          in if \<not> isKept then on_world (DeletePrePullPod (kube E) opts p) c else (None, c)
      | None \<Rightarrow>
          if r_needsPrePull rollout then on_world (CreatePrePullPod (kube E) opts (r_name rollout)) c
          else (None, c))"

section \<open>Rolling out\<close>

definition apply_deployment :: "'s env \<Rightarrow> string \<Rightarrow> 's controller \<Rightarrow> (error + bool) \<times> 's controller" where
  \<comment> \<open>\<open>return false, caddy.ApplyDeployment(...)\<close>\<close>
  "apply_deployment E nodeName c =
     (case on_world (ApplyDeployment (kube E) (checks E) (marshal E) (Deploy (cfg c)) nodeName) c of
        (Some e, c') \<Rightarrow> (Inl e, c')
      | (None, c') \<Rightarrow> (Inr False, c'))"

definition listRollouts :: "'s env \<Rightarrow> 's controller \<Rightarrow> (error + nodeRollout list) \<times> 's controller" where
  "listRollouts E c =
     (case nodes_list (caches E) (nodeSelector c) of
        Inl e \<Rightarrow> (Inl (ErrApi [] e), c)
      | Inr nodes \<Rightarrow>
          (case on_world (ListDeployments (kube E) (Deploy (cfg c))) c of
             (Inl e, c') \<Rightarrow> (Inl e, c')
           | (Inr deployments, c') \<Rightarrow>
               (Inr (map (\<lambda>n. nodeRollout_of E (cfg c) n (map_get deployments (DeploymentName (Name n))))
                       (filter isInService nodes)), c')))"

definition admitRollout :: "'s env \<Rightarrow> string \<Rightarrow> 's controller \<Rightarrow> (error + bool) \<times> 's controller" where
  \<comment> \<open>on a hold the code also logs \<open>blockerProblem\<close>; \<open>Fleet\<close> shows that it never panics\<close>
  "admitRollout E nodeName c =
     (case listRollouts E c of
        (Inl e, c1) \<Rightarrow> (Inl e, c1)
      | (Inr fleet, c1) \<Rightarrow>
          let img = CaddyImage (Deploy (cfg c));
              (reason, blocker) = rolloutHold fleet nodeName img
          in if reason \<noteq> [] then (Inr True, enqueue (QAddAfter nodeName requeueInterval) c1)
             else apply_deployment E nodeName c1)"

definition syncRollout :: "'s env \<Rightarrow> node \<Rightarrow> 's controller \<Rightarrow> (error + bool) \<times> 's controller" where
  "syncRollout E n c =
     (let self = nodeRollout_of E (cfg c) n (cachedDeployment E (cfg c) (Name n)) in
      case syncPrePullPod E self (clock E) c of
        (Some e, c1) \<Rightarrow> (Inl e, c1)
      | (None, c1) \<Rightarrow>
          if \<not> r_isPending self then apply_deployment E (Name n) c1
          else if \<not> r_isInService self then (Inr True, c1)
          else admitRollout E (Name n) c1)"

definition applyCaddy :: "'s env \<Rightarrow> node \<Rightarrow> 's controller \<Rightarrow> error option \<times> 's controller" where
  "applyCaddy E n c =
     (case syncRollout E n c of
        (Inl e, c1) \<Rightarrow> (Some e, c1)
      | (Inr isHeld, c1) \<Rightarrow>
          let opts = Deploy (cfg c1);
              externalIPs = (case map_get (ExternalEndpoints (cfg c1)) (Name n) of None \<Rightarrow> [] | Some ips \<Rightarrow> ips)
          in if isHeld \<and> EnableCiliumLB opts then
               on_world (ApplyLoadBalancerService (kube E) (checks E) opts (Name n) externalIPs) c1
             else if isHeld then (None, c1)
             else (case on_world (EnsureLoadBalancerService (kube E) (checks E) opts (Name n) externalIPs) c1 of
                     (Some e, c2) \<Rightarrow> (Some e, c2)
                   | (None, c2) \<Rightarrow> on_world (DeleteStaleDeployments (kube E) opts (Name n)) c2))"

definition deployNode :: "'s env \<Rightarrow> node \<Rightarrow> 's controller \<Rightarrow> (error + caddy_pod) \<times> 's controller" where
  "deployNode E n c =
     (case applyCaddy E n c of
        (Some e, c1) \<Rightarrow> (Inl e, c1)
      | (None, c1) \<Rightarrow> on_world (FindActivePod (kube E) (Deploy (cfg c1)) (Name n)) c1)"

section \<open>The admission rule\<close>

definition unpulled :: "string \<Rightarrow> nodeRollout \<Rightarrow> bool" where
  \<comment> \<open>the node still waits for the image\<close>
  "unpulled img r \<longleftrightarrow> r_needsPrePull r \<and> \<not> hasPrePulled r img"

definition named :: "nodeRollout list \<Rightarrow> bool" where
  \<comment> \<open>node names are not empty and identify the node\<close>
  "named fleet \<longleftrightarrow> distinct (map r_name fleet) \<and> [] \<notin> r_name ` set fleet"

lemma named_unique: "named F \<Longrightarrow> r \<in> set F \<Longrightarrow> s \<in> set F \<Longrightarrow> r_name r = r_name s \<Longrightarrow> r = s"
  by (auto simp: named_def distinct_map dest: inj_onD)

lemma hold_scan_blocked:
  "hold_scan n img F acc = Inl x \<Longrightarrow>
     \<exists>r \<in> set F. unpulled img r \<and> x = (''waiting for the image pre-pull on node '' @ r_name r, r)"
  by (induction n img F acc rule: hold_scan.induct) (auto simp: unpulled_def split: if_splits)

lemma hold_scan_unblocked:
  "hold_scan n img F acc = Inr x \<Longrightarrow> \<forall>r \<in> set F. \<not> unpulled img r"
  by (induction n img F acc rule: hold_scan.induct) (auto simp: unpulled_def split: if_splits)

lemma hold_scan_result:
  "hold_scan n img F (self, unav, fp) = Inr (self', unav', fp') \<Longrightarrow>
     (self' = self \<and> (\<forall>r \<in> set F. r_name r \<noteq> n) \<or> (\<exists>r \<in> set F. self' = Some r \<and> r_name r = n)) \<and>
     (unav' = unav \<and> (\<forall>r \<in> set F. r_name r \<noteq> n \<longrightarrow> r_isAvailable r) \<or>
      (\<exists>r \<in> set F. unav' = Some r \<and> r_name r \<noteq> n \<and> \<not> r_isAvailable r))"
proof (induction F arbitrary: self unav fp)
  case (Cons r F)
  let ?self = "if r_name r = n then Some r else self"
    and ?unav = "if r_name r \<noteq> n \<and> \<not> r_isAvailable r then Some r else unav"
  obtain fp1 where "hold_scan n img F (?self, ?unav, fp1) = Inr (self', unav', fp')"
    using Cons.prems by (auto split: if_splits)
  from Cons.IH [OF this] show ?case by (auto split: if_splits)
qed simp

lemma hold_scan_firstPending:
  "hold_scan n img F (self, unav, fp) = Inr (self', unav', fp') \<Longrightarrow> [] \<notin> r_name ` set F \<Longrightarrow>
     (fp' = fp \<or> (\<exists>r \<in> set F. r_isPending r \<and> fp' = r_name r)) \<and>
     (fp \<noteq> [] \<longrightarrow> fp' \<noteq> [] \<and> fp' \<le> fp) \<and>
     (\<forall>r \<in> set F. r_isPending r \<longrightarrow> fp' \<noteq> [] \<and> fp' \<le> r_name r)"
proof (induction F arbitrary: self unav fp)
  case (Cons r F)
  define fp1 where "fp1 = (if r_isPending r \<and> (fp = [] \<or> r_name r < fp) then r_name r else fp)"
  obtain self1 unav1 where "hold_scan n img F (self1, unav1, fp1) = Inr (self', unav', fp')"
    using Cons.prems(1) unfolding fp1_def by (auto split: if_splits)
  from Cons.IH [OF this] Cons.prems(2)
  have IH: "fp' = fp1 \<or> (\<exists>r \<in> set F. r_isPending r \<and> fp' = r_name r)"
    "fp1 \<noteq> [] \<longrightarrow> fp' \<noteq> [] \<and> fp' \<le> fp1"
    "\<forall>r \<in> set F. r_isPending r \<longrightarrow> fp' \<noteq> [] \<and> fp' \<le> r_name r" by auto
  have "fp' = fp \<or> (\<exists>s \<in> set (r # F). r_isPending s \<and> fp' = r_name s)"
    using IH(1) by (auto simp: fp1_def split: if_splits)
  moreover have "fp' \<noteq> [] \<and> fp' \<le> fp" if "fp \<noteq> []"
  proof -
    have "fp1 \<noteq> []" "fp1 \<le> fp" using that Cons.prems(2) by (auto simp: fp1_def)
    with IH(2) show ?thesis by auto
  qed
  moreover have "fp' \<noteq> [] \<and> fp' \<le> r_name r" if "r_isPending r"
  proof -
    have "fp1 \<noteq> []" "fp1 \<le> r_name r" using that Cons.prems(2) by (auto simp: fp1_def)
    with IH(2) show ?thesis by auto
  qed
  ultimately show ?case using IH(3) by auto
qed simp

lemma rolloutHold_cases:
  assumes "named F"
  obtains (prepull) r where "r \<in> set F" "unpulled img r"
      "rolloutHold F n img = (''waiting for the image pre-pull on node '' @ r_name r, Some r)"
  | (absent) "\<forall>r \<in> set F. \<not> unpulled img r" "\<forall>r \<in> set F. r_name r \<noteq> n"
      "rolloutHold F n img = (''node is cordoned or not ready'', None)"
  | (free) self where "\<forall>r \<in> set F. \<not> unpulled img r" "self \<in> set F" "r_name self = n"
      "\<not> r_isPending self \<or> \<not> r_isAvailable self" "rolloutHold F n img = ([], None)"
  | (outage) self u where "\<forall>r \<in> set F. \<not> unpulled img r" "self \<in> set F" "r_name self = n"
      "r_isPending self" "r_isAvailable self" "u \<in> set F" "r_name u \<noteq> n" "\<not> r_isAvailable u"
      "rolloutHold F n img = (''waiting for node '' @ r_name u @ '' to become available'', Some u)"
  | (turn) self first where "\<forall>r \<in> set F. \<not> unpulled img r" "self \<in> set F" "r_name self = n"
      "r_isPending self" "r_isAvailable self" "\<forall>r \<in> set F. r_name r \<noteq> n \<longrightarrow> r_isAvailable r"
      "first \<in> set F" "r_isPending first" "\<forall>r \<in> set F. r_isPending r \<longrightarrow> r_name first \<le> r_name r"
      "rolloutHold F n img = (if r_name first = n then [] else
         ''waiting for node '' @ r_name first @ '' to roll out first'', None)"
proof (cases "hold_scan n img F (None, None, [])")
  case (Inl x)
  from hold_scan_blocked [OF this] Inl prepull show thesis by (auto simp: rolloutHold_def)
next
  case (Inr x)
  obtain self unav fp where x: "x = (self, unav, fp)" by (cases x)
  note scan = Inr [unfolded x]
  note free_of = hold_scan_unblocked [OF scan] and res = hold_scan_result [OF scan]
  have first: "fp = [] \<or> (\<exists>r \<in> set F. r_isPending r \<and> fp = r_name r)"
    "\<forall>r \<in> set F. r_isPending r \<longrightarrow> fp \<noteq> [] \<and> fp \<le> r_name r"
    using hold_scan_firstPending [OF scan] assms by (auto simp: named_def)
  show thesis
  proof (cases self)
    case None
    with res scan free_of absent show thesis by (auto simp: rolloutHold_def)
  next
    case (Some s)
    with res have s: "s \<in> set F" "r_name s = n" by auto
    show thesis
    proof (cases "r_isPending s \<and> r_isAvailable s")
      case False
      with free [OF free_of s] scan Some show thesis by (auto simp: rolloutHold_def)
    next
      case True
      show thesis
      proof (cases unav)
        case None
        with res have others: "\<forall>r \<in> set F. r_name r \<noteq> n \<longrightarrow> r_isAvailable r" by auto
        from first True s obtain f where "f \<in> set F" "r_isPending f" "fp = r_name f" by auto
        with turn [OF free_of s _ _ others, of f] True first(2) scan Some None s(2) show thesis
          by (auto simp: rolloutHold_def split: if_splits)
      next
        case (Some u)
        with outage [OF free_of s _ _, of u] True res scan \<open>self = Some s\<close> show thesis
          by (auto simp: rolloutHold_def)
      qed
    qed
  qed
qed

lemma rolloutHold_empty_iff:
  assumes "named F"
  shows "fst (rolloutHold F n img) = [] \<longleftrightarrow>
     (\<forall>r \<in> set F. \<not> unpulled img r) \<and>
     (\<exists>self \<in> set F. r_name self = n \<and>
        (\<not> r_isPending self \<or> \<not> r_isAvailable self \<or>
         (\<forall>r \<in> set F. r_name r \<noteq> n \<longrightarrow> r_isAvailable r) \<and>
         (\<forall>r \<in> set F. r_isPending r \<longrightarrow> n \<le> r_name r)))"
proof -
  have self_iff: "(\<exists>x \<in> set F. r_name x = n \<and> P x) \<longleftrightarrow> P self" if "self \<in> set F" "r_name self = n" for P self
  proof -
    have "x = self" if "x \<in> set F" "r_name x = n" for x
      by (rule named_unique [OF assms]) (simp_all add: that \<open>self \<in> set F\<close> \<open>r_name self = n\<close>)
    with that show ?thesis by metis
  qed
  show ?thesis
    using assms
  proof (cases rule: rolloutHold_cases [of F img n])
    case (free self)
    then show ?thesis unfolding self_iff [OF free(2,3)] by auto
  next
    case (outage self u)
    then show ?thesis unfolding self_iff [OF outage(2,3)] by auto
  next
    case (turn self first)
    have "r_name first = n \<longleftrightarrow> (\<forall>r \<in> set F. r_isPending r \<longrightarrow> n \<le> r_name r)"
      using turn(2-4,7-9) by (metis order.antisym order.refl)
    with turn show ?thesis unfolding self_iff [OF turn(2,3)] by simp
  qed auto
qed

text \<open>C3. A node is let through by the rollout gate exactly when no node in service still waits
  for its image pre-pull, the node itself is in service, and either it needs no restart, or it is
  down already, or every other node in service is available and it comes first by name among
  the nodes that still have to be restarted.\<close>

theorem rolloutHold_admits_iff:
  assumes "named fleet"
  shows "fst (rolloutHold fleet n img) = [] \<longleftrightarrow>
     (\<forall>r \<in> set fleet. \<not> unpulled img r) \<and>
     (\<exists>self \<in> set fleet. r_name self = n \<and>
        (\<not> r_isPending self \<or> \<not> r_isAvailable self \<or>
         (\<forall>r \<in> set fleet. r_name r \<noteq> n \<longrightarrow> r_isAvailable r) \<and>
         (\<forall>r \<in> set fleet. r_isPending r \<longrightarrow> n \<le> r_name r)))"
  by (rule rolloutHold_empty_iff [OF assms])

definition example_rollout :: nodeRollout where
  "example_rollout = \<lparr>r_name = ''alpha'', r_isInService = True, r_isPending = True, r_isAvailable = True,
     r_needsPrePull = False, r_prePull = None, r_deployment = None\<rparr>"

definition example_fleet :: "nodeRollout list" where
  "example_fleet = [example_rollout\<lparr>r_name := ''bravo''\<rparr>, example_rollout,
     example_rollout\<lparr>r_name := ''charlie'', r_isPending := False\<rparr>]"

lemma example_fleet_named [simp]: "named example_fleet"
  by (simp add: named_def example_fleet_def example_rollout_def)

theorem rolloutHold_admits_iff_witness:
  "named example_fleet \<and> fst (rolloutHold example_fleet ''alpha'' ''caddy:2'') = [] \<and>
   fst (rolloutHold example_fleet ''bravo'' ''caddy:2'') \<noteq> []"
proof -
  have "fst (rolloutHold example_fleet ''alpha'' ''caddy:2'') = []"
    by (subst rolloutHold_admits_iff)
      (simp_all add: example_fleet_def example_rollout_def unpulled_def named_def less_eq_list_code)
  moreover have "fst (rolloutHold example_fleet ''bravo'' ''caddy:2'') \<noteq> []"
    by (simp add: rolloutHold_def example_fleet_def example_rollout_def)
  ultimately show ?thesis by simp
qed

lemma gate_open:
  assumes "named F" and pending: "\<exists>r \<in> set F. r_isPending r"
  shows "(\<exists>r \<in> set F. r_isPending r \<and> fst (rolloutHold F (r_name r) img) = []) \<or>
         (\<exists>r \<in> set F. unpulled img r \<or> \<not> r_isPending r \<and> \<not> r_isAvailable r)"
proof (cases "\<exists>r \<in> set F. r_isPending r \<and> \<not> r_isAvailable r")
  case True
  then show ?thesis unfolding rolloutHold_empty_iff [OF assms(1)] by blast
next
  case False
  let ?P = "{r \<in> set F. r_isPending r}"
  have "finite (r_name ` ?P)" "r_name ` ?P \<noteq> {}" using pending by auto
  then obtain f where f: "f \<in> ?P" "\<forall>r \<in> ?P. r_name f \<le> r_name r"
    by (metis (mono_tags, lifting) Min_in Min_le imageE image_eqI)
  with False show ?thesis unfolding rolloutHold_empty_iff [OF assms(1)] by blast
qed

text \<open>C15. The gate opens for one node at a time and does not deadlock. Of the nodes that are
  available and have to be restarted at most one is let through; and when some node has to be
  restarted, one such node is let through unless a node in service waits for its image pre-pull
  or a node that needs no restart is down.\<close>

theorem rollout_one_at_a_time:
  assumes "named fleet"
  shows "(\<forall>r \<in> set fleet. \<forall>s \<in> set fleet.
            r_isPending r \<and> r_isAvailable r \<and> fst (rolloutHold fleet (r_name r) img) = [] \<and>
            r_isPending s \<and> r_isAvailable s \<and> fst (rolloutHold fleet (r_name s) img) = [] \<longrightarrow> r = s) \<and>
         ((\<exists>r \<in> set fleet. r_isPending r) \<longrightarrow>
            (\<exists>r \<in> set fleet. r_isPending r \<and> fst (rolloutHold fleet (r_name r) img) = []) \<or>
            (\<exists>r \<in> set fleet. unpulled img r \<or> \<not> r_isPending r \<and> \<not> r_isAvailable r))"
proof (intro conjI ballI impI)
  fix r s assume rs: "r \<in> set fleet" "s \<in> set fleet"
    and h: "r_isPending r \<and> r_isAvailable r \<and> fst (rolloutHold fleet (r_name r) img) = [] \<and>
      r_isPending s \<and> r_isAvailable s \<and> fst (rolloutHold fleet (r_name s) img) = []"
  have least: "r_name a \<le> r_name b"
    if mem: "a \<in> set fleet" and pend: "b \<in> set fleet" "r_isPending a" "r_isAvailable a" "r_isPending b"
      and admitted: "fst (rolloutHold fleet (r_name a) img) = []" for a b
  proof -
    obtain self where self: "self \<in> set fleet" "r_name self = r_name a"
        "\<not> r_isPending self \<or> \<not> r_isAvailable self \<or> (\<forall>r \<in> set fleet. r_isPending r \<longrightarrow> r_name a \<le> r_name r)"
      using admitted unfolding rolloutHold_empty_iff [OF assms] by blast
    have "self = a" using named_unique [OF assms self(1) mem self(2)] .
    with self(3) pend show ?thesis by blast
  qed
  have "r_name r \<le> r_name s" "r_name s \<le> r_name r" using least rs h by blast+
  then show "r = s" using named_unique [OF assms rs] by (metis order.antisym)
qed (use gate_open [OF assms] in blast)

theorem rollout_one_at_a_time_witness:
  "named example_fleet \<and>
   (\<exists>r \<in> set example_fleet. r_isPending r \<and> fst (rolloutHold example_fleet (r_name r) ''caddy:2'') = [])"
proof -
  have "\<exists>r \<in> set example_fleet. r_isPending r"
    "\<not> (\<exists>r \<in> set example_fleet. unpulled ''caddy:2'' r \<or> \<not> r_isPending r \<and> \<not> r_isAvailable r)"
    by (simp_all add: example_fleet_def example_rollout_def unpulled_def)
  with rollout_one_at_a_time [of example_fleet "''caddy:2''"] show ?thesis by auto
qed

end
