(* ===== verification/Fleet.thy ===== *)
theory Fleet
  imports Rollout
begin

text \<open>
  The fleet seen by the rollout gate as a state machine. The controller's own step is an admission
  by \<open>rolloutHold\<close>; the other steps are what the cluster may do between two admissions. The last
  sections show that \<open>admitRollout\<close> takes exactly such a step on the API server.

  Besides the nodes in service a state remembers two sets of node names. \<open>restarting\<close> are the nodes
  that were available when they were admitted and have not been seen available again; a node stays
  there when it fails, leaves or comes back. \<open>unseen\<close> are those of them whose restart was hidden from
  the gate for a while, which only looks at nodes in service and at what the server reports: the node
  left the service during its restart, or was still reported available right after its admission.
\<close>

section \<open>Steps\<close>

definition only_at :: "string \<Rightarrow> (nodeRollout \<Rightarrow> nodeRollout \<Rightarrow> bool) \<Rightarrow> nodeRollout list \<Rightarrow> nodeRollout list \<Rightarrow> bool" where
  \<comment> \<open>the named node changes by \<open>P\<close>, every other node stays as it is\<close>
  "only_at n P F F' \<longleftrightarrow>
     list_all2 (\<lambda>r r'. r_name r' = r_name r \<and> (if r_name r = n then P r r' else r' = r)) F F'"

definition up :: "nodeRollout list \<Rightarrow> string \<Rightarrow> bool" where
  "up F n \<longleftrightarrow> (\<exists>r \<in> set F. r_name r = n \<and> r_isAvailable r)"

record fleet_state =
  in_service :: "nodeRollout list"
  restarting :: "string set"
  unseen :: "string set"

definition after_admission :: "string \<Rightarrow> nodeRollout list \<Rightarrow> fleet_state \<Rightarrow> fleet_state" where
  "after_admission n F' S =
     (let A = (if up (in_service S) n then insert n (restarting S) else restarting S)
      in \<lparr>in_service = F', restarting = A, unseen = unseen S \<union> (if up F' n then A \<inter> {n} else {})\<rparr>)"

definition recovered :: "string \<Rightarrow> nodeRollout list \<Rightarrow> fleet_state \<Rightarrow> fleet_state" where
  "recovered n F' S = \<lparr>in_service = F', restarting = restarting S - {n}, unseen = unseen S - {n}\<rparr>"

inductive fleet_step :: "fleet_state \<Rightarrow> fleet_state \<Rightarrow> bool" where
  admit: "fst (rolloutHold (in_service S) n img) = [] \<Longrightarrow>
    only_at n (\<lambda>r r'. r_isPending r \<and> \<not> r_isPending r') (in_service S) F' \<Longrightarrow>
    fleet_step S (after_admission n F' S)"
| settle: "only_at n (\<lambda>r r'. \<not> r_isAvailable r \<and> r_isAvailable r') (in_service S) F' \<Longrightarrow>
    fleet_step S (recovered n F' S)"
| outage: "only_at n (\<lambda>r r'. \<not> r_isAvailable r') (in_service S) F' \<Longrightarrow> fleet_step S (S\<lparr>in_service := F'\<rparr>)"
| observe: "list_all2 (\<lambda>r r'. r_name r' = r_name r \<and> r_isAvailable r' = r_isAvailable r) (in_service S) F' \<Longrightarrow>
    fleet_step S (S\<lparr>in_service := F'\<rparr>)"
| leave: "fleet_step S (S\<lparr>in_service := filter (\<lambda>r. r_name r \<noteq> n) (in_service S),
    unseen := unseen S \<union> (restarting S \<inter> {n})\<rparr>)"
| join: "in_service S = F1 @ F2 \<Longrightarrow> named (F1 @ r # F2) \<Longrightarrow>
    fleet_step S (if r_isAvailable r then recovered (r_name r) (F1 @ r # F2) S
                  else S\<lparr>in_service := F1 @ r # F2\<rparr>)"

definition disrupted :: "fleet_state \<Rightarrow> string set" where
  \<comment> \<open>the nodes in service that an admission took down and that are down\<close>
  "disrupted S = set (map r_name (filter (\<lambda>r. \<not> r_isAvailable r \<and> r_name r \<in> restarting S) (in_service S)))"

definition fleet_inv :: "fleet_state \<Rightarrow> bool" where
  "fleet_inv S \<longleftrightarrow> named (in_service S) \<and>
     (\<exists>n. restarting S - unseen S \<subseteq> {n}) \<and>
     (\<forall>n \<in> restarting S - unseen S. n \<in> r_name ` set (in_service S) \<and> \<not> up (in_service S) n)"

section \<open>At most one node is disrupted\<close>

lemma same_names:
  "list_all2 P F F' \<Longrightarrow> (\<And>r r'. P r r' \<Longrightarrow> r_name r' = r_name r) \<Longrightarrow> map r_name F' = map r_name F"
  by (induction rule: list_all2_induct) auto

lemma named_cong: "map r_name F' = map r_name F \<Longrightarrow> named F' = named F"
  by (metis image_set named_def)

lemma only_at_names: "only_at n P F F' \<Longrightarrow> map r_name F' = map r_name F"
  unfolding only_at_def by (erule same_names) simp

lemma only_at_old:
  assumes "only_at n P F F'" "r' \<in> set F'"
  obtains r where "r \<in> set F" "r_name r' = r_name r" "if r_name r = n then P r r' else r' = r"
  using assms unfolding only_at_def list_all2_conv_all_nth in_set_conv_nth by metis

lemma only_at_new:
  assumes "only_at n P F F'" "r \<in> set F"
  obtains r' where "r' \<in> set F'" "r_name r' = r_name r" "if r_name r = n then P r r' else r' = r"
  using assms unfolding only_at_def list_all2_conv_all_nth in_set_conv_nth by metis

lemma only_at_up: "only_at n P F F' \<Longrightarrow> m \<noteq> n \<Longrightarrow> up F' m \<longleftrightarrow> up F m"
  unfolding up_def by (metis only_at_new only_at_old)

lemma fleet_invI:
  assumes "fleet_inv S" "named (in_service S')" "restarting S' - unseen S' \<subseteq> restarting S - unseen S"
    and "\<And>n. n \<in> restarting S' - unseen S' \<Longrightarrow> n \<in> r_name ` set (in_service S) \<Longrightarrow> \<not> up (in_service S) n \<Longrightarrow>
      n \<in> r_name ` set (in_service S') \<and> \<not> up (in_service S') n"
  shows "fleet_inv S'"
  using assms unfolding fleet_inv_def by (meson subset_iff)

lemma fleet_inv_renamed:
  assumes "fleet_inv S" "map r_name (in_service S') = map r_name (in_service S)"
    and "restarting S' - unseen S' \<subseteq> restarting S - unseen S"
    and "\<And>n. n \<in> restarting S' - unseen S' \<Longrightarrow> \<not> up (in_service S) n \<Longrightarrow> \<not> up (in_service S') n"
  shows "fleet_inv S'"
proof (rule fleet_invI [OF assms(1) _ assms(3)])
  show "named (in_service S')" using assms(1) named_cong [OF assms(2)] by (simp add: fleet_inv_def)
  have "r_name ` set (in_service S') = r_name ` set (in_service S)" using assms(2) by (metis list.set_map)
  then show "n \<in> r_name ` set (in_service S') \<and> \<not> up (in_service S') n"
    if "n \<in> restarting S' - unseen S'" "n \<in> r_name ` set (in_service S)" "\<not> up (in_service S) n" for n
    using that assms(4) by blast
qed

lemma in_after_admission [simp]: "in_service (after_admission n F' S) = F'"
  by (simp add: after_admission_def Let_def)

lemma fleet_inv_admit:
  assumes inv: "fleet_inv S" and gate: "fst (rolloutHold (in_service S) n img) = []"
    and step: "only_at n (\<lambda>r r'. r_isPending r \<and> \<not> r_isPending r') (in_service S) F'"
  shows "fleet_inv (after_admission n F' S)"
proof -
  have named: "named (in_service S)" "named F'"
    using inv named_cong [OF only_at_names [OF step]] by (auto simp: fleet_inv_def)
  have names: "r_name ` set F' = r_name ` set (in_service S)"
    using only_at_names [OF step] by (metis list.set_map)
  obtain self where self: "self \<in> set (in_service S)" "r_name self = n"
    "\<not> r_isPending self \<or> \<not> r_isAvailable self \<or> (\<forall>r \<in> set (in_service S). r_name r \<noteq> n \<longrightarrow> r_isAvailable r)"
    using gate unfolding rolloutHold_empty_iff [OF named(1)] by blast
  have pending: "r_isPending self"
    using only_at_new [OF step self(1)] self(2) by metis
  have self_up: "up (in_service S) n \<longleftrightarrow> r_isAvailable self"
    using self(1,2) named_unique [OF named(1)] by (auto simp: up_def)
  show ?thesis
  proof (cases "r_isAvailable self")
    case True
    with self(3) pending have others: "\<forall>r \<in> set (in_service S). r_name r \<noteq> n \<longrightarrow> r_isAvailable r" by blast
    have "restarting S - unseen S \<subseteq> {n}"
    proof
      fix m assume "m \<in> restarting S - unseen S"
      then have "m \<in> r_name ` set (in_service S)" "\<not> up (in_service S) m" using inv by (auto simp: fleet_inv_def)
      with others show "m \<in> {n}" by (auto simp: up_def)
    qed
    moreover have "n \<in> r_name ` set F'" using names self(1,2) by blast
    moreover have "restarting (after_admission n F' S) - unseen (after_admission n F' S) =
        insert n (restarting S) - unseen S - (if up F' n then {n} else {})"
      using self_up True by (auto simp: after_admission_def Let_def)
    ultimately show ?thesis using named(2)
      by (auto simp: fleet_inv_def split: if_splits)
  next
    case False
    show ?thesis
    proof (rule fleet_inv_renamed [OF inv])
      show "map r_name (in_service (after_admission n F' S)) = map r_name (in_service S)"
        using only_at_names [OF step] by simp
      show "restarting (after_admission n F' S) - unseen (after_admission n F' S) \<subseteq> restarting S - unseen S"
        using False self_up by (auto simp: after_admission_def Let_def)
      fix m assume m: "m \<in> restarting (after_admission n F' S) - unseen (after_admission n F' S)" "\<not> up (in_service S) m"
      show "\<not> up (in_service (after_admission n F' S)) m"
      proof (cases "m = n")
        case True
        with m False self_up show ?thesis by (auto simp: after_admission_def Let_def)
      qed (use m only_at_up [OF step, of m] in simp)
    qed
  qed
qed

lemma fleet_inv_step: "fleet_step S S' \<Longrightarrow> fleet_inv S \<Longrightarrow> fleet_inv S'"
proof (induction rule: fleet_step.induct)
  case (admit S n img F')
  then show ?case by (blast intro: fleet_inv_admit)
next
  case (settle n S F')
  then show ?case using only_at_up [OF settle(1)] only_at_names [OF settle(1)]
    by (intro fleet_inv_renamed [OF settle(2)]) (auto simp: recovered_def)
next
  case (outage n S F')
  have "\<not> up F' m" if "\<not> up (in_service S) m" for m
  proof (cases "m = n")
    case True
    then show ?thesis unfolding up_def by (metis only_at_old [OF outage(1)])
  qed (use that only_at_up [OF outage(1)] in simp)
  then show ?case using only_at_names [OF outage(1)] by (intro fleet_inv_renamed [OF outage(2)]) simp_all
next
  case (observe S F')
  have "map r_name F' = map r_name (in_service S)" using observe(1) by (rule same_names) simp
  moreover have "up F' m \<longleftrightarrow> up (in_service S) m" for m
    using observe(1) by (induction rule: list_all2_induct) (auto simp: up_def)
  ultimately show ?case by (intro fleet_inv_renamed [OF observe(2)]) simp_all
next
  case (leave S n)
  have "named (filter (\<lambda>r. r_name r \<noteq> n) (in_service S))"
    using leave by (auto simp: fleet_inv_def named_def distinct_map_filter)
  then show ?case by (intro fleet_invI [OF leave]) (auto simp: up_def)
next
  case (join S F1 F2 r)
  show ?case
  proof (rule fleet_invI [OF join(3)])
    fix m assume "m \<in> r_name ` set (in_service S)" "\<not> up (in_service S) m"
    moreover from this(1) join(1,2) have "m \<noteq> r_name r" by (auto simp: named_def) (metis image_eqI)+
    ultimately show "m \<in> r_name ` set (in_service (if r_isAvailable r then recovered (r_name r) (F1 @ r # F2) S
          else S\<lparr>in_service := F1 @ r # F2\<rparr>)) \<and>
        \<not> up (in_service (if r_isAvailable r then recovered (r_name r) (F1 @ r # F2) S else S\<lparr>in_service := F1 @ r # F2\<rparr>)) m"
      using join(1) by (auto simp: recovered_def up_def)
  qed (use join(2) in \<open>auto simp: recovered_def\<close>)
qed

lemma down_node_holds:
  assumes "named F" "d \<in> set F" "\<not> r_isAvailable d" "r \<in> set F" "r_isPending r" "r_isAvailable r"
  shows "fst (rolloutHold F (r_name r) img) \<noteq> []"
proof
  assume "fst (rolloutHold F (r_name r) img) = []"
  then obtain self where "self \<in> set F" "r_name self = r_name r"
    "\<not> r_isPending self \<or> \<not> r_isAvailable self \<or> (\<forall>s \<in> set F. r_name s \<noteq> r_name r \<longrightarrow> r_isAvailable s)"
    unfolding rolloutHold_empty_iff [OF assms(1)] by blast
  then show False using assms named_unique [OF assms(1)] by metis
qed

abbreviation fresh_fleet :: "nodeRollout list \<Rightarrow> fleet_state" where
  "fresh_fleet F \<equiv> \<lparr>in_service = F, restarting = {}, unseen = {}\<rparr>"

text \<open>C2. A rollout takes one node down at a time. Start from any fleet and let the gate admit nodes
  while the cluster restarts them, nodes fail and recover, are cordoned and come back, images and
  templates change. At every moment the nodes in service that are down because they were admitted
  while available are at most one, not counting those whose restart the gate could not follow: a node
  that left the service in the middle of its restart and came back before it was up again, or that
  the server still reported as rolled out after its new template had been applied (it does not, when
  it raises the generation with the template). And as long as any such node is down, whatever the
  reason it counts for, the gate holds every node that is available and has to be restarted.\<close>

theorem rollout_disrupts_at_most_one:
  assumes "named F" and "fleet_step\<^sup>*\<^sup>* (fresh_fleet F) S"
  shows "card (disrupted S - unseen S) \<le> 1 \<and>
         (disrupted S \<noteq> {} \<longrightarrow> (\<forall>r \<in> set (in_service S). r_isPending r \<and> r_isAvailable r \<longrightarrow>
            fst (rolloutHold (in_service S) (r_name r) img) \<noteq> []))"
proof (intro conjI impI ballI)
  have "fleet_inv (fresh_fleet F)" using assms(1) by (simp add: fleet_inv_def)
  with assms(2) have inv: "fleet_inv S" by (induction rule: rtranclp_induct) (blast intro: fleet_inv_step)+
  then obtain n where "disrupted S - unseen S \<subseteq> {n}" by (fastforce simp: fleet_inv_def disrupted_def)
  then show "card (disrupted S - unseen S) \<le> 1" by (metis card_mono card_1_singleton_iff finite.simps One_nat_def)
  fix r assume r: "disrupted S \<noteq> {}" "r \<in> set (in_service S)" "r_isPending r \<and> r_isAvailable r"
  from r(1) obtain d where d: "d \<in> set (in_service S)" "\<not> r_isAvailable d" by (auto simp: disrupted_def)
  have "named (in_service S)" using inv by (simp add: fleet_inv_def)
  from down_node_holds [OF this d] r(2,3) show "fst (rolloutHold (in_service S) (r_name r) img) \<noteq> []" by blast
qed

definition rolling_fleet :: "nodeRollout list" where
  \<comment> \<open>\<open>example_fleet\<close> after the admission of its first node by name\<close>
  "rolling_fleet = [example_rollout\<lparr>r_name := ''bravo''\<rparr>,
     example_rollout\<lparr>r_isPending := False, r_isAvailable := False\<rparr>,
     example_rollout\<lparr>r_name := ''charlie'', r_isPending := False\<rparr>]"

theorem rollout_disrupts_at_most_one_witness:
  "\<exists>S. fleet_step\<^sup>*\<^sup>* (fresh_fleet example_fleet) S \<and> in_service S = rolling_fleet \<and> unseen S = {} \<and>
     disrupted S = {''alpha''} \<and> card (disrupted S) \<le> 1 \<and> fst (rolloutHold rolling_fleet ''bravo'' ''caddy:2'') \<noteq> []"
proof -
  let ?S = "after_admission ''alpha'' rolling_fleet (fresh_fleet example_fleet)"
  have "fst (rolloutHold example_fleet ''alpha'' ''caddy:2'') = []"
    by (simp add: rolloutHold_def example_fleet_def example_rollout_def)
  then have "fleet_step (fresh_fleet example_fleet) ?S"
    by (intro fleet_step.admit)
      (simp_all add: only_at_def example_fleet_def rolling_fleet_def example_rollout_def)
  then have run: "fleet_step\<^sup>*\<^sup>* (fresh_fleet example_fleet) ?S" by simp
  have "up example_fleet ''alpha''" "\<not> up rolling_fleet ''alpha''"
    by (simp_all add: up_def example_fleet_def rolling_fleet_def example_rollout_def)
  then have S: "in_service ?S = rolling_fleet" "unseen ?S = {}" "restarting ?S = {''alpha''}"
    by (simp_all add: after_admission_def)
  have "filter (\<lambda>r. \<not> r_isAvailable r \<and> r_name r \<in> {''alpha''}) rolling_fleet =
      [example_rollout\<lparr>r_isPending := False, r_isAvailable := False\<rparr>]"
    by (simp add: rolling_fleet_def example_rollout_def)
  then have d: "disrupted ?S = {''alpha''}" unfolding disrupted_def S by (simp add: example_rollout_def)
  let ?b = "example_rollout\<lparr>r_name := ''bravo''\<rparr>"
  have b: "?b \<in> set rolling_fleet" "r_isPending ?b \<and> r_isAvailable ?b" "r_name ?b = ''bravo''"
    by (simp_all add: rolling_fleet_def example_rollout_def)
  note safe = rollout_disrupts_at_most_one [OF example_fleet_named run, of "''caddy:2''", unfolded S d]
  have "fst (rolloutHold rolling_fleet (r_name ?b) ''caddy:2'') \<noteq> []"
    by (rule safe [THEN conjunct2, rule_format, OF _ b(1,2)]) simp
  with safe run S d b(3) show ?thesis by (intro exI [of _ ?S]) simp
qed

text \<open>The exception is real: a node that is cordoned while it restarts and put back in service before
  it is up again leaves two nodes down through admissions.\<close>

lemma cordoned_restart_overlaps:
  "\<exists>S. fleet_step\<^sup>*\<^sup>* (fresh_fleet example_fleet) S \<and> disrupted S = {''alpha'', ''bravo''} \<and> unseen S = {''alpha''}"
proof -
  let ?b = "example_rollout\<lparr>r_name := ''bravo''\<rparr>" and ?b' = "example_rollout\<lparr>r_name := ''bravo'', r_isPending := False, r_isAvailable := False\<rparr>"
    and ?a' = "example_rollout\<lparr>r_isPending := False, r_isAvailable := False\<rparr>"
    and ?c = "example_rollout\<lparr>r_name := ''charlie'', r_isPending := False\<rparr>"
  let ?S1 = "\<lparr>in_service = rolling_fleet, restarting = {''alpha''}, unseen = {}\<rparr>"
    and ?S2 = "\<lparr>in_service = [?b, ?c], restarting = {''alpha''}, unseen = {''alpha''}\<rparr>"
    and ?S3 = "\<lparr>in_service = [?b', ?c], restarting = {''bravo'', ''alpha''}, unseen = {''alpha''}\<rparr>"
    and ?S4 = "\<lparr>in_service = [?b', ?a', ?c], restarting = {''bravo'', ''alpha''}, unseen = {''alpha''}\<rparr>"
  have "fleet_step (fresh_fleet example_fleet) ?S1"
    using fleet_step.admit [of "fresh_fleet example_fleet" "''alpha''" "''caddy:2''" rolling_fleet]
    by (simp add: after_admission_def up_def rolloutHold_def only_at_def example_fleet_def rolling_fleet_def example_rollout_def)
  moreover have "fleet_step ?S1 ?S2"
    using fleet_step.leave [of ?S1 "''alpha''"] by (simp add: rolling_fleet_def example_rollout_def)
  moreover have "fleet_step ?S2 ?S3"
    using fleet_step.admit [of ?S2 "''bravo''" "''caddy:2''" "[?b', ?c]"]
    by (simp add: after_admission_def up_def rolloutHold_def only_at_def example_rollout_def)
  moreover have "fleet_step ?S3 ?S4"
    using fleet_step.join [of ?S3 "[?b']" "[?c]" ?a'] by (simp add: named_def example_rollout_def)
  ultimately have "fleet_step\<^sup>*\<^sup>* (fresh_fleet example_fleet) ?S4"
    by (meson converse_rtranclp_into_rtranclp r_into_rtranclp)
  moreover have "disrupted ?S4 = {''alpha'', ''bravo''}" by (auto simp: disrupted_def example_rollout_def)
  ultimately show ?thesis by (intro exI [of _ ?S4]) simp
qed

section \<open>Rollouts complete\<close>

text \<open>
  The steps of a rollout that nothing disturbs: the gate admits a node that has to be restarted,
  which brings it up to date and may take it down, and the cluster brings a node up again.
\<close>

inductive roll :: "string \<Rightarrow> nodeRollout list \<Rightarrow> nodeRollout list \<Rightarrow> bool" for img where
  restart: "fst (rolloutHold F n img) = [] \<Longrightarrow> r \<in> set F \<Longrightarrow> r_name r = n \<Longrightarrow>
    only_at n (\<lambda>r r'. r_isPending r \<and> \<not> r_isPending r' \<and> \<not> r_needsPrePull r') F F' \<Longrightarrow> roll img F F'"
| ready: "r \<in> set F \<Longrightarrow> r_name r = n \<Longrightarrow>
    only_at n (\<lambda>r r'. \<not> r_isPending r \<and> \<not> r_isAvailable r \<and> r' = r\<lparr>r_isAvailable := True\<rparr>) F F' \<Longrightarrow> roll img F F'"

definition work :: "nodeRollout list \<Rightarrow> nat" where
  "work F = sum_list (map (\<lambda>r. (if r_isPending r then 2 else 0) + (if r_isAvailable r then 0 else 1)) F)"

definition complete :: "nodeRollout list \<Rightarrow> bool" where
  "complete F \<longleftrightarrow> (\<forall>r \<in> set F. \<not> r_isPending r \<and> r_isAvailable r)"

lemma only_at_work:
  assumes "only_at n P F F'" "r \<in> set F" "r_name r = n"
    and "\<And>r r'. P r r' \<Longrightarrow> work [r'] < work [r]"
  shows "work F' < work F"
proof -
  have le: "work F' \<le> work F" if "only_at n P F F'" for F F'
    using that [unfolded only_at_def]
  proof (induction rule: list_all2_induct)
    case (Cons r F r' F')
    then have "work [r'] \<le> work [r]" using assms(4) [of r r'] by (cases "r_name r = n") auto
    with Cons show ?case by (simp add: work_def)
  qed simp
  from assms(1) [unfolded only_at_def] assms(2) show ?thesis
  proof (induction rule: list_all2_induct)
    case (Cons r0 F r' F')
    have tl: "only_at n P F F'" using Cons.hyps by (simp add: only_at_def)
    show ?case
    proof (cases "r_name r0 = n")
      case True
      with Cons.hyps(1) assms(4) have "work [r'] < work [r0]" by simp
      with le [OF tl] show ?thesis by (simp add: work_def)
    next
      case False
      with Cons.prems assms(3) have "r \<in> set F" by auto
      with Cons False show ?thesis by (simp add: work_def)
    qed
  qed simp
qed

lemma roll_work: "roll img F F' \<Longrightarrow> work F' < work F"
  by (induction rule: roll.induct) (erule only_at_work; fastforce simp: work_def)+

definition roll_inv :: "string \<Rightarrow> nodeRollout list \<Rightarrow> bool" where
  "roll_inv img F \<longleftrightarrow> named F \<and> (\<forall>r \<in> set F. \<not> unpulled img r)"

lemma hasPrePulled_available [simp]: "hasPrePulled (r\<lparr>r_isAvailable := b\<rparr>) img = hasPrePulled r img"
  by (simp add: hasPrePulled_def)

lemma roll_inv_only_at:
  assumes "roll_inv img F" "only_at n P F F'"
    and "\<And>r r'. r \<in> set F \<Longrightarrow> P r r' \<Longrightarrow> unpulled img r' \<Longrightarrow> unpulled img r"
  shows "roll_inv img F'"
proof -
  have "\<not> unpulled img r'" if mem: "r' \<in> set F'" for r'
  proof (rule only_at_old [OF assms(2) mem])
    fix r assume "r \<in> set F" "if r_name r = n then P r r' else r' = r"
    with assms(1,3) show ?thesis by (metis roll_inv_def)
  qed
  moreover have "named F'"
    using assms(1) named_cong [OF only_at_names [OF assms(2)]] by (simp add: roll_inv_def)
  ultimately show ?thesis by (simp add: roll_inv_def)
qed

lemma roll_inv_step: "roll img F F' \<Longrightarrow> roll_inv img F \<Longrightarrow> roll_inv img F'"
  by (induction rule: roll.induct) (erule (1) roll_inv_only_at; auto simp: unpulled_def)+

lemma roll_inv_steps: "(roll img)\<^sup>*\<^sup>* F F' \<Longrightarrow> roll_inv img F \<Longrightarrow> roll_inv img F'"
  by (induction rule: rtranclp_induct) (blast intro: roll_inv_step)+

lemma only_at_map:
  assumes "\<And>r. r \<in> set F \<Longrightarrow> r_name r = n \<Longrightarrow> r_name (f r) = n \<and> P r (f r)"
  shows "only_at n P F (map (\<lambda>r. if r_name r = n then f r else r) F)"
  using assms by (auto simp: only_at_def list_all2_conv_all_nth)

lemma named_the_node:
  assumes "named F" "s \<in> set F" "r_name s = n" "Q s"
  shows "r \<in> set F \<Longrightarrow> r_name r = n \<Longrightarrow> Q r"
  using assms named_unique [of F r s] by simp

lemma roll_progress:
  assumes "roll_inv img F" "\<not> complete F"
  obtains F' where "roll img F F'"
proof (cases "\<exists>r \<in> set F. \<not> r_isPending r \<and> \<not> r_isAvailable r")
  case True
  then obtain r where r: "r \<in> set F" "\<not> r_isPending r \<and> \<not> r_isAvailable r" by blast
  from that [OF roll.ready [OF r(1) refl only_at_map [of F _ "\<lambda>r. r\<lparr>r_isAvailable := True\<rparr>"]]] show thesis
    using named_the_node [of F r "r_name r" "\<lambda>r. \<not> r_isPending r \<and> \<not> r_isAvailable r"] assms(1) r
    by (auto simp: roll_inv_def)
next
  case False
  with assms(2) have "\<exists>r \<in> set F. r_isPending r" by (auto simp: complete_def)
  moreover have "\<not> unpulled img r" if "r \<in> set F" for r using assms(1) that by (simp add: roll_inv_def)
  ultimately obtain r where r: "r \<in> set F" "r_isPending r" "fst (rolloutHold F (r_name r) img) = []"
    using gate_open [of F img] assms(1) False by (auto simp: roll_inv_def)
  from that [OF roll.restart [OF r(3,1) refl
      only_at_map [of F _ "\<lambda>r. r\<lparr>r_isPending := False, r_needsPrePull := False\<rparr>"]]] show thesis
    using named_the_node [of F r "r_name r" r_isPending] assms(1) r by (auto simp: roll_inv_def)
qed

lemma roll_reaches_complete: "roll_inv img F \<Longrightarrow> \<exists>F'. (roll img)\<^sup>*\<^sup>* F F' \<and> complete F'"
proof (induction "work F" arbitrary: F rule: less_induct)
  case less
  show ?case
  proof (cases "complete F")
    case False
    with less.prems obtain F1 where F1: "roll img F F1" by (rule roll_progress)
    with less.hyps [OF roll_work [OF F1] roll_inv_step [OF F1 less.prems]] show ?thesis
      by (meson converse_rtranclp_into_rtranclp)
  qed blast
qed

text \<open>C14. An undisturbed rollout finishes: once every image pre-pull is done, each sequence of
  admissions and restarts is bounded by the work the fleet starts with (two steps for a node to
  restart, one for a node that is down), it stops only when every node in service runs the
  current template and is available, and such an end is reached.\<close>

theorem rollout_completes:
  assumes "named F" and "\<forall>r \<in> set F. \<not> unpulled img r"
  shows "((roll img ^^ k) F F' \<longrightarrow> k \<le> work F) \<and>
         ((roll img)\<^sup>*\<^sup>* F F' \<and> (\<nexists>F''. roll img F' F'') \<longrightarrow> complete F') \<and>
         (\<exists>E. (roll img)\<^sup>*\<^sup>* F E \<and> complete E)"
proof (intro conjI impI)
  show "\<exists>E. (roll img)\<^sup>*\<^sup>* F E \<and> complete E"
    using assms by (simp add: roll_reaches_complete roll_inv_def)
next
  have "k + work F' \<le> work F" if "(roll img ^^ k) F F'" for k F'
    using that by (induction k arbitrary: F') (fastforce dest: roll_work)+
  then show "k \<le> work F" if "(roll img ^^ k) F F'" using that by fastforce
next
  assume run: "(roll img)\<^sup>*\<^sup>* F F' \<and> (\<nexists>F''. roll img F' F'')"
  have "roll_inv img F" using assms by (simp add: roll_inv_def)
  with run have "roll_inv img F'" using roll_inv_steps by blast
  with run show "complete F'" using roll_progress by blast
qed

theorem rollout_completes_witness:
  "(roll ''caddy:2'' ^^ 1) example_fleet rolling_fleet \<and> 1 \<le> work example_fleet \<and> \<not> complete example_fleet \<and>
   (\<exists>E. (roll ''caddy:2'')\<^sup>*\<^sup>* example_fleet E \<and> complete E)"
proof -
  have gate: "fst (rolloutHold example_fleet ''alpha'' ''caddy:2'') = []"
    by (simp add: rolloutHold_def example_fleet_def example_rollout_def)
  have "example_rollout \<in> set example_fleet" "r_name example_rollout = ''alpha''"
    by (simp_all add: example_fleet_def example_rollout_def)
  then have "roll ''caddy:2'' example_fleet rolling_fleet"
    by (rule roll.restart [OF gate])
      (simp add: only_at_def example_fleet_def rolling_fleet_def example_rollout_def)
  then have one: "(roll ''caddy:2'' ^^ 1) example_fleet rolling_fleet" by (simp add: eq_OO)
  have "\<forall>r \<in> set example_fleet. \<not> unpulled ''caddy:2'' r"
    by (simp add: example_fleet_def example_rollout_def unpulled_def)
  moreover have "\<not> complete example_fleet"
    by (simp add: complete_def example_fleet_def example_rollout_def)
  ultimately show ?thesis
    using rollout_completes [OF example_fleet_named, of "''caddy:2''" 1 rolling_fleet] one by blast
qed

section \<open>The controller takes these steps\<close>

definition managed_selector :: labels where
  "managed_selector = [(labelApp, labelAppValue), (labelCaddyManaged, labelManagedValue)]"

definition listed :: "deploy_options \<Rightarrow> deployment list \<Rightarrow> string \<Rightarrow> deployment option" where
  "listed opts deps n =
     List.find (\<lambda>d. at (Namespace opts) n d \<and> selects managed_selector (Labels d)) deps"

definition fleet_of :: "'s env \<Rightarrow> config \<Rightarrow> node list \<Rightarrow> deployment list \<Rightarrow> nodeRollout list" where
  \<comment> \<open>the fleet as the server's Deployments define it\<close>
  "fleet_of E cf nodes deps =
     map (\<lambda>n. nodeRollout_of E cf n (listed (Deploy cf) deps (DeploymentName (Name n)))) (filter isInService nodes)"

lemma nodeRollout_of_name [simp]: "r_name (nodeRollout_of E cf n d) = Name n"
  by (simp add: nodeRollout_of_def Let_def split: option.splits)

lemma map_get_fold_put:
  "map_get (fold (\<lambda>d m. map_put (Name d) d m) ds m) n =
     (case List.find (\<lambda>d. Name d = n) (rev ds) of Some d \<Rightarrow> Some d | None \<Rightarrow> map_get m n)"
proof (induction ds rule: rev_induct)
  case (snoc d ds)
  then show ?case by (auto split: option.splits)
qed simp

lemma find_unique:
  assumes "\<And>x y. x \<in> set xs \<Longrightarrow> y \<in> set xs \<Longrightarrow> P x \<Longrightarrow> P y \<Longrightarrow> x = y"
  shows "List.find P xs = Some x \<longleftrightarrow> x \<in> set xs \<and> P x"
proof
  assume "List.find P xs = Some x"
  then show "x \<in> set xs \<and> P x" by (auto simp: find_Some_iff)
next
  assume x: "x \<in> set xs \<and> P x"
  then obtain y where y: "List.find P xs = Some y" by (metis find_None_iff not_None_eq)
  then have "y \<in> set xs" "P y" by (auto simp: find_Some_iff)
  with assms x y show "List.find P xs = Some x" by blast
qed

lemma listed_iff:
  assumes "names_unique deps"
  shows "listed opts deps n = Some d \<longleftrightarrow>
    d \<in> set deps \<and> at (Namespace opts) n d \<and> selects managed_selector (Labels d)"
  unfolding listed_def by (rule find_unique) (use assms in \<open>auto simp: names_unique_def at_def\<close>)

context kube_server
begin

lemma ListDeployments_listed:
  assumes "ListDeployments api opts w = (Inr m, w')" "names_unique (v_deps w)"
  shows "v_deps w' = v_deps w \<and> map_get m n = listed opts (v_deps w) n"
proof -
  obtain ds where l: "deployments_list api (Namespace opts) managed_selector w = (Inr ds, w')"
    and m: "m = fold (\<lambda>d m. map_put (Name d) d m) ds []"
    using assms(1) by (auto simp: ListDeployments_def managed_selector_def split: prod.splits sum.splits)
  have ds: "set ds = {d \<in> set (v_deps w). ObjNamespace d = Namespace opts \<and> selects managed_selector (Labels d)}"
    using deps.list_result [OF l] .
  have "map_get m n = Some d \<longleftrightarrow> listed opts (v_deps w) n = Some d" for d
  proof -
    have "map_get m n = Some d \<longleftrightarrow> List.find (\<lambda>d. Name d = n) (rev ds) = Some d"
      by (simp add: m map_get_fold_put split: option.splits)
    also have "\<dots> \<longleftrightarrow> d \<in> set ds \<and> Name d = n"
      by (subst find_unique) (use assms(2) ds in \<open>auto simp: names_unique_def\<close>)
    also have "\<dots> \<longleftrightarrow> listed opts (v_deps w) n = Some d"
      using ds by (auto simp: listed_iff [OF assms(2)] at_def)
    finally show ?thesis .
  qed
  then have "map_get m n = listed opts (v_deps w) n" by (metis not_None_eq)
  with deps.list_view [of "Namespace opts" managed_selector w] l show ?thesis by simp
qed

lemma listRollouts_fleet:
  assumes "listRollouts E c = (Inr F, c')" "kube E = api" "names_unique (v_deps (world c))"
  obtains nodes w' where "nodes_list (caches E) (nodeSelector c) = Inr nodes"
    "F = fleet_of E (cfg c) nodes (v_deps (world c))" "c' = c\<lparr>world := w'\<rparr>" "v_deps w' = v_deps (world c)"
proof -
  obtain nodes deployments where nodes: "nodes_list (caches E) (nodeSelector c) = Inr nodes"
    and run: "on_world (ListDeployments api (Deploy (cfg c))) c = (Inr deployments, c')"
    and F: "F = map (\<lambda>n. nodeRollout_of E (cfg c) n (map_get deployments (DeploymentName (Name n))))
                  (filter isInService nodes)"
    using assms(1,2) by (auto simp: listRollouts_def split: sum.splits prod.splits)
  obtain w' where w': "ListDeployments api (Deploy (cfg c)) (world c) = (Inr deployments, w')" "c' = c\<lparr>world := w'\<rparr>"
    using run by (rule on_world_cases)
  note l = ListDeployments_listed [OF w'(1) assms(3)]
  show thesis
    by (rule that [OF nodes _ w'(2)]) (use l F in \<open>auto simp: fleet_of_def\<close>)
qed

end

lemma apply_deployment_cases:
  assumes "apply_deployment E n c = (Inr held, c')"
  obtains w' where "\<not> held" "c' = c\<lparr>world := w'\<rparr>"
    "ApplyDeployment (kube E) (checks E) (marshal E) (Deploy (cfg c)) n (world c) = (None, w')"
  using assms
  by (auto simp: apply_deployment_def split: prod.splits option.splits elim!: on_world_cases)

lemma fleet_of_names [simp]: "map r_name (fleet_of E cf nodes deps) = map Name (filter isInService nodes)"
  by (simp add: fleet_of_def)

lemma selects_managed_selector: "selects (ManagedLabels n) ls \<Longrightarrow> selects managed_selector ls"
  by (auto simp: selects_def managed_selector_def ManagedLabels_eq)

context kube_server
begin

lemma ApplyDeployment_unique:
  assumes "ApplyDeployment api V mj opts n w = (r, w')" "names_unique (v_deps w)"
  shows "names_unique (v_deps w')"
  using assms(1)
proof (cases rule: ApplyDeployment_cases)
  case (applied r1)
  with dep_ap.apply_unique [OF assms(2), of "deploymentApplyConfig mj opts n" applyOptions] show ?thesis by simp
qed (use assms in auto)

lemma ApplyDeployment_fleet:
  assumes "ApplyDeployment api V (marshal E) (Deploy cf) n w = (None, w')" "names_unique (v_deps w)"
  shows "only_at n (\<lambda>r r'. \<not> r_isPending r') (fleet_of E cf nodes (v_deps w)) (fleet_of E cf nodes (v_deps w'))"
proof -
  let ?o = "Deploy cf"
  note effect = ApplyDeployment_effect [OF assms(1)]
  note unique = assms(2) ApplyDeployment_unique [OF assms]
  have other: "listed ?o (v_deps w') (DeploymentName m) = listed ?o (v_deps w) (DeploymentName m)" if "m \<noteq> n" for m
  proof -
    have "\<not> at (Namespace ?o) (DeploymentName n) d" if "at (Namespace ?o) (DeploymentName m) d" for d :: deployment
      using that \<open>m \<noteq> n\<close> by (auto simp: at_def DeploymentName_def)
    with effect have "listed ?o (v_deps w') (DeploymentName m) = Some d \<longleftrightarrow>
        listed ?o (v_deps w) (DeploymentName m) = Some d" for d
      unfolding listed_iff [OF unique(1)] listed_iff [OF unique(2)] by blast
    then show ?thesis by (metis not_None_eq)
  qed
  obtain d where "d \<in> set (v_deps w')" "at (Namespace ?o) (DeploymentName n) d"
      "selects (ManagedLabels n) (Labels d)" "AppliedTemplateHash d = TemplateHash (marshal E) ?o n"
    using effect by blast
  then have self: "listed ?o (v_deps w') (DeploymentName n) = Some d"
      "AppliedTemplateHash d = TemplateHash (marshal E) ?o n"
    by (simp_all add: listed_iff [OF unique(2)] selects_managed_selector)
  then have "\<not> r_isPending (nodeRollout_of E cf nd (listed ?o (v_deps w') (DeploymentName n)))" if "Name nd = n" for nd
    using that by (simp add: nodeRollout_of_def Let_def)
  with other show ?thesis
    by (auto simp: only_at_def fleet_of_def list_all2_conv_all_nth)
qed

end

text \<open>C6. \<^verbatim>\<open>admitRollout\<close> takes the steps of the gate on the API server. When it holds a node,
  the gate holds it for the fleet that the server's Deployments define, no Deployment changes and
  the node is requeued for five seconds later. When it admits a node, the gate is open for that
  fleet, and afterwards the node is up to date and every other node's entry is as before: an
  admission step of the fleet if the node had to be restarted.\<close>

theorem admitRollout_refines:
  assumes server: "kube_server (kube E) v_deps v_svcs v_pods"
    and unique: "names_unique (v_deps (world c))"
    and nodes: "nodes_list (caches E) (nodeSelector c) = Inr nodes"
    and run: "admitRollout E n c = (Inr held, c')"
  defines "F \<equiv> fleet_of E (cfg c) nodes (v_deps (world c))"
    and "F' \<equiv> fleet_of E (cfg c) nodes (v_deps (world c'))"
  shows "(held \<longleftrightarrow> fst (rolloutHold F n (CaddyImage (Deploy (cfg c)))) \<noteq> []) \<and>
         (held \<longrightarrow> v_deps (world c') = v_deps (world c) \<and> F' = F \<and>
            queue c' = queue c @ [QAddAfter n requeueInterval]) \<and>
         (\<not> held \<longrightarrow> only_at n (\<lambda>r r'. \<not> r_isPending r') F F' \<and> queue c' = queue c \<and>
            ((\<forall>r \<in> set F. r_name r = n \<longrightarrow> r_isPending r) \<and> in_service S = F \<longrightarrow>
               fleet_step S (after_admission n F' S)))"
proof -
  obtain F0 c1 where l: "listRollouts E c = (Inr F0, c1)"
    using run by (auto simp: admitRollout_def split: prod.splits sum.splits)
  obtain w1 where F0: "F0 = F" and c1: "c1 = c\<lparr>world := w1\<rparr>" and w1: "v_deps w1 = v_deps (world c)"
    using kube_server.listRollouts_fleet [OF server l refl unique] nodes unfolding F_def by (metis sum.inject(2))
  let ?reason = "fst (rolloutHold F n (CaddyImage (Deploy (cfg c))))"
  show ?thesis
  proof (cases "?reason = []")
    case False
    then have "held" "c' = enqueue (QAddAfter n requeueInterval) c1"
      using run by (auto simp: admitRollout_def l F0 split: prod.splits)
    with False c1 w1 show ?thesis by (simp add: F'_def F_def)
  next
    case True
    then have "apply_deployment E n c1 = (Inr held, c')"
      using run by (auto simp: admitRollout_def l F0 split: prod.splits)
    then obtain w' where w': "\<not> held" "c' = c1\<lparr>world := w'\<rparr>"
      and app: "ApplyDeployment (kube E) (checks E) (marshal E) (Deploy (cfg c)) n w1 = (None, w')"
      using c1 by (auto elim!: apply_deployment_cases)
    have only: "only_at n (\<lambda>r r'. \<not> r_isPending r') F F'"
      using kube_server.ApplyDeployment_fleet [OF server app, of nodes] unique
      by (simp add: F_def F'_def w' c1 w1)
    have "fleet_step S (after_admission n F' S)" if "\<forall>r \<in> set F. r_name r = n \<longrightarrow> r_isPending r" "in_service S = F"
      by (rule fleet_step.admit [OF True [folded that(2)]])
        (use only that in \<open>auto simp: only_at_def list_all2_conv_all_nth\<close>)
    with True w' only c1 show ?thesis by simp
  qed
qed

definition pending_cluster :: mem where
  "pending_cluster = mem_empty\<lparr>m_deps := [example_deployment ''alpha'' ''old'', example_deployment ''bravo'' ''old'']\<rparr>"

definition no_prepull :: "mem controller \<Rightarrow> mem controller" where
  "no_prepull c = c\<lparr>cfg := (cfg c)\<lparr>Deploy := (Deploy (cfg c))\<lparr>PrePullImage := False\<rparr>\<rparr>\<rparr>"

lemma old_is_pending: "TemplateHash mj opts n \<noteq> ''old''" "''old'' \<noteq> TemplateHash mj opts n"
proof -
  have "length (TemplateHash mj opts n) \<noteq> length ''old''" by simp
  then show "TemplateHash mj opts n \<noteq> ''old''" "''old'' \<noteq> TemplateHash mj opts n" by metis+
qed

lemma pending_fleet:
  "fleet_of (example_env [example_node ''alpha'', example_node ''bravo''] deps)
     (cfg (no_prepull (example_controller pending_cluster)))
     [example_node ''alpha'', example_node ''bravo''] (m_deps pending_cluster) =
   [example_rollout\<lparr>r_deployment := Some (example_deployment ''alpha'' ''old'')\<rparr>,
    example_rollout\<lparr>r_name := ''bravo'', r_deployment := Some (example_deployment ''bravo'' ''old'')\<rparr>]"
  by (simp add: fleet_of_def nodeRollout_of_def isInService_def listed_def at_def example_defs no_prepull_def
      pending_cluster_def mem_empty_def example_deployment_def DeploymentName_def selects_def managed_selector_def
      ManagedLabels_eq map_get_def label_consts isRolledOut_def AppliedTemplateHash_def map_str_def old_is_pending
      example_rollout_def)

theorem admitRollout_refines_witness:
  "\<exists>c' F F'. admitRollout (example_env [example_node ''alpha'', example_node ''bravo''] []) ''alpha''
       (no_prepull (example_controller pending_cluster)) = (Inr False, c') \<and>
     length F = 2 \<and> fleet_step (fresh_fleet F) (after_admission ''alpha'' F' (fresh_fleet F)) \<and> \<not> r_isPending (hd F')"
proof -
  let ?E = "example_env [example_node ''alpha'', example_node ''bravo''] []"
    and ?c = "no_prepull (example_controller pending_cluster)"
    and ?nodes = "[example_node ''alpha'', example_node ''bravo'']"
  have nodes: "nodes_list (caches ?E) (nodeSelector ?c) = Inr ?nodes"
    by (simp add: example_defs no_prepull_def selects_def map_get_def)
  have server: "kube_server (kube ?E) m_deps m_svcs m_pods"
    by (simp add: example_env_def mem.kube_server_axioms)
  have unique: "names_unique (m_deps (world ?c))"
    by (simp add: names_unique_def no_prepull_def example_controller_def pending_cluster_def
        example_deployment_def DeploymentName_def)
  have world: "world ?c = pending_cluster" by (simp add: no_prepull_def example_controller_def)
  obtain F0 where l: "listRollouts ?E ?c = (Inr F0, ?c)"
    by (simp add: listRollouts_def nodes on_world_def ListDeployments_def world)
      (simp add: example_env_def mem_eval pending_cluster_def no_prepull_def example_controller_def)
  have F0: "F0 = fleet_of ?E (cfg ?c) ?nodes (m_deps pending_cluster)"
    using kube_server.listRollouts_fleet [OF server l refl unique] nodes world by (metis sum.inject(2))
  have label: "IsLabelValue documented_validators ''alpha'' = []"
    by (simp add: dv.label_value_check label_value_def char_class_defs)
  obtain c' where run: "admitRollout ?E ''alpha'' ?c = (Inr False, c')"
    by (simp add: admitRollout_def l F0 pending_fleet rolloutHold_def example_rollout_def apply_deployment_def
        on_world_def ApplyDeployment_def ValidateName_def world)
      (simp add: example_env_def label mem_api_def mem_apply_def faulty_def next_fault_def pending_cluster_def
        mem_empty_def no_prepull_def example_controller_def)
  let ?F = "fleet_of ?E (cfg ?c) ?nodes (m_deps pending_cluster)"
    and ?F' = "fleet_of ?E (cfg ?c) ?nodes (m_deps (world c'))"
  have "only_at ''alpha'' (\<lambda>r r'. \<not> r_isPending r') ?F ?F' \<and>
      fleet_step (fresh_fleet ?F) (after_admission ''alpha'' ?F' (fresh_fleet ?F))"
    using admitRollout_refines [OF server unique nodes run, of "fresh_fleet ?F"]
    by (simp add: world pending_fleet example_rollout_def)
  moreover from this have "\<not> r_isPending (hd ?F')"
    by (cases ?F') (auto simp: only_at_def pending_fleet example_rollout_def)
  ultimately show ?thesis using run pending_fleet by (intro exI conjI) auto
qed

section \<open>Behind a closed gate\<close>

definition only_world :: "('s controller \<Rightarrow> 'r \<times> 's controller) \<Rightarrow> bool" where
  \<comment> \<open>the call changes nothing of the controller but its view of the outside\<close>
  "only_world call \<longleftrightarrow> (\<forall>c. \<exists>w'. snd (call c) = c\<lparr>world := w'\<rparr>)"

lemma only_world_on_world [simp]: "only_world (on_world call)"
  by (auto simp: only_world_def on_world_def split: prod.splits)

lemma only_worldD: "only_world call \<Longrightarrow> call c = (r, c') \<Longrightarrow> \<exists>w'. c' = c\<lparr>world := w'\<rparr>"
  by (metis only_world_def snd_conv)

lemma untouched_on_world: "untouched v call \<Longrightarrow> on_world call c = (r, c') \<Longrightarrow> v (world c') = v (world c)"
  by (auto elim!: on_world_cases dest: untouchedD)

lemma syncPrePullPod_only_world: "only_world (syncPrePullPod E r now)"
  unfolding only_world_def syncPrePullPod_def Let_def
proof
  fix c :: "'a controller"
  have same: "\<exists>w'. c = c\<lparr>world := w'\<rparr>" by (rule exI [of _ "world c"]) simp
  show "\<exists>w'. snd (case r_prePull r of
      None \<Rightarrow> if r_needsPrePull r then on_world (CreatePrePullPod (kube E) (Deploy (cfg c)) (r_name r)) c else (None, c)
    | Some p \<Rightarrow> if \<not> (r_needsPrePull r \<and> PrePullPodImage p = CaddyImage (Deploy (cfg c)) \<and> \<not> isRetryablePrePull p now)
        then on_world (DeletePrePullPod (kube E) (Deploy (cfg c)) p) c else (None, c)) = c\<lparr>world := w'\<rparr>"
    using only_world_on_world [unfolded only_world_def] same by (auto split: option.split)
qed

context kube_server
begin

lemma CreatePrePullPod_frame: "untouched v_deps (CreatePrePullPod api opts n)" "untouched v_svcs (CreatePrePullPod api opts n)"
  using pods_frame(5,6) [of "prePullPodApplyConfig opts n" applyOptions]
  by (auto simp: untouched_def CreatePrePullPod_def split: prod.splits option.splits) (metis snd_conv)+

lemma CreatePrePullPod_effect:
  assumes "CreatePrePullPod api opts n w = (None, w')"
  shows "(\<exists>p \<in> set (v_pods w'). at (Namespace opts) (PrePullPodName n) p) \<and>
         (\<forall>p. \<not> at (Namespace opts) (PrePullPodName n) p \<longrightarrow> (p \<in> set (v_pods w') \<longleftrightarrow> p \<in> set (v_pods w)))"
proof -
  let ?a = "prePullPodApplyConfig opts n"
  have meta: "ApName ?a = PrePullPodName n" "ApNamespace ?a = Namespace opts"
    by (simp_all add: prePullPodApplyConfig_def)
  have a: "pods_apply api ?a applyOptions w = (None, w')"
    using assms by (auto simp: CreatePrePullPod_def split: prod.splits option.splits)
  from pod_ap.apply_done [OF a] pod_ap.apply_other [of ?a _ applyOptions w] a show ?thesis
    by (auto simp: meta)
qed

lemma DeletePrePullPod_frame: "untouched v_deps (DeletePrePullPod api opts p)" "untouched v_svcs (DeletePrePullPod api opts p)"
  unfolding untouched_def DeletePrePullPod_def using deletePrePullPod_effect by (metis prod.collapse)+

lemma syncPrePullPod_frame:
  assumes "syncPrePullPod E r now c = (e, c')" "kube E = api"
  shows "v_deps (world c') = v_deps (world c)" "v_svcs (world c') = v_svcs (world c)"
  using assms CreatePrePullPod_frame [THEN untouched_on_world] DeletePrePullPod_frame [THEN untouched_on_world]
  by (auto simp: syncPrePullPod_def Let_def split: option.splits if_splits)

lemma listRollouts_frame:
  assumes "listRollouts E c = (r, c')" "kube E = api"
  shows "v_deps (world c') = v_deps (world c)" "v_svcs (world c') = v_svcs (world c)"
proof -
  have "v_deps w' = v_deps w \<and> v_svcs w' = v_svcs w" if "ListDeployments api opts w = (x, w')" for opts w x w'
    using that deps.list_view [of "Namespace opts" managed_selector w]
      untouchedD [OF deployments_frame(1), of "Namespace opts" managed_selector w]
    by (auto simp: ListDeployments_def managed_selector_def split: prod.splits sum.splits)
  then show "v_deps (world c') = v_deps (world c)" "v_svcs (world c') = v_svcs (world c)"
    using assms by (auto simp: listRollouts_def split: sum.splits prod.splits elim!: on_world_cases)
qed

lemma FindActivePod_frame: "untouched v_deps (FindActivePod api opts n)" "untouched v_svcs (FindActivePod api opts n)"
  using pods_frame(1,2) [of "Namespace opts" "managedListOptions n"]
  by (auto simp: untouched_def FindActivePod_def split: prod.splits sum.splits option.splits) (metis snd_conv)+

lemma ApplyLoadBalancerService_frame: "untouched v_deps (ApplyLoadBalancerService api V opts n ips)"
  unfolding untouched_def
proof
  fix w
  let ?a = "loadBalancerServiceApplyConfig V (Namespace opts) n ips"
  obtain r w1 where a: "services_apply api ?a applyOptions w = (r, w1)" by fastforce
  have 1: "v_deps w1 = v_deps w" using untouchedD [OF services_frame(5) a] .
  obtain l w2 where l: "services_list api (Namespace opts) (managedListOptions n) w1 = (l, w2)" by fastforce
  have 2: "v_deps w2 = v_deps w1" using untouchedD [OF services_frame(1) l] .
  have 3: "v_deps (snd (delete_each (services_delete api (Namespace opts)) kind keep xs w2)) = v_deps w2"
    for kind keep and xs :: "service list"
    by (rule delete_each_frame [OF services_frame(3) surjective_pairing])
  show "v_deps (snd (ApplyLoadBalancerService api V opts n ips w)) = v_deps w"
    using a l 1 2 3
    by (simp add: ApplyLoadBalancerService_def deleteServicesExcept_def Let_def split: option.splits sum.splits)
qed

end

lemma isInService_nodeRollout: "r_isInService (nodeRollout_of E cf n d) = isInService n"
  by (simp add: nodeRollout_of_def Let_def split: option.splits)

lemma held_sync:
  assumes server: "kube_server (kube E) v_deps v_svcs v_pods"
    and unique: "names_unique (v_deps (world c))"
    and nodes: "nodes_list (caches E) (nodeSelector c) = Inr nodes"
    and pending: "r_isPending (nodeRollout_of E (cfg c) nd (cachedDeployment E (cfg c) (Name nd)))"
    and closed: "\<not> isInService nd \<or>
      fst (rolloutHold (fleet_of E (cfg c) nodes (v_deps (world c))) (Name nd) (CaddyImage (Deploy (cfg c)))) \<noteq> []"
    and run: "syncRollout E nd c = (h, c')"
  shows "(v_deps (world c') = v_deps (world c) \<and> v_svcs (world c') = v_svcs (world c) \<and>
    agg c' = agg c \<and> pushState c' = pushState c \<and> cfg c' = cfg c) \<and> h \<noteq> Inr False"
proof -
  let ?self = "nodeRollout_of E (cfg c) nd (cachedDeployment E (cfg c) (Name nd))"
  obtain e c1 where p: "syncPrePullPod E ?self (clock E) c = (e, c1)" by fastforce
  obtain w1 where c1: "c1 = c\<lparr>world := w1\<rparr>" using only_worldD [OF syncPrePullPod_only_world p] ..
  have w1: "v_deps w1 = v_deps (world c)" "v_svcs w1 = v_svcs (world c)"
    using kube_server.syncPrePullPod_frame [OF server p refl] c1 by simp_all
  show ?thesis
  proof (cases "e = None \<and> isInService nd")
    case False
    with run p pending c1 w1 show ?thesis
      by (auto simp: syncRollout_def Let_def isInService_nodeRollout split: option.splits)
  next
    case True
    with run p pending have admit: "admitRollout E (Name nd) c1 = (h, c')"
      by (simp add: syncRollout_def Let_def isInService_nodeRollout)
    obtain l c2 where l: "listRollouts E c1 = (l, c2)" by fastforce
    have c2: "\<exists>w2. c2 = c1\<lparr>world := w2\<rparr>"
      using l by (auto simp: listRollouts_def split: sum.splits prod.splits elim!: on_world_cases)
        (rule exI [of _ "world c2"], simp)
    have w2: "v_deps (world c2) = v_deps (world c)" "v_svcs (world c2) = v_svcs (world c)"
      using kube_server.listRollouts_frame [OF server l refl] c1 w1 by simp_all
    have "F = fleet_of E (cfg c) nodes (v_deps (world c))" if "l = Inr F" for F
      using kube_server.listRollouts_fleet [OF server l [unfolded that] refl] unique nodes c1 w1
      by (metis (no_types, lifting) controller.select_convs controller.surjective controller.update_convs(6) sum.inject(2))
    with admit l True closed c1 c2 w2 show ?thesis
      by (auto simp: admitRollout_def Let_def split: sum.splits prod.splits)
  qed
qed

text \<open>C12. A node is never restarted behind a closed gate. When a managed node has an outdated
  Deployment and is not in service, or the gate holds it, then deploying it leaves every
  Deployment of the namespace as it is, whatever calls fail, and leaves the Services as they are
  unless the Cilium load balancer is on; neither the accepted configuration nor the record of
  pushes changes.\<close>

theorem closed_gate_keeps_deployments:
  assumes server: "kube_server (kube E) v_deps v_svcs v_pods"
    and unique: "names_unique (v_deps (world c))"
    and nodes: "nodes_list (caches E) (nodeSelector c) = Inr nodes"
    and pending: "r_isPending (nodeRollout_of E (cfg c) nd (cachedDeployment E (cfg c) (Name nd)))"
    and closed: "\<not> isInService nd \<or>
      fst (rolloutHold (fleet_of E (cfg c) nodes (v_deps (world c))) (Name nd) (CaddyImage (Deploy (cfg c)))) \<noteq> []"
    and run: "deployNode E nd c = (r, c')"
  shows "v_deps (world c') = v_deps (world c) \<and>
         (\<not> EnableCiliumLB (Deploy (cfg c)) \<longrightarrow> v_svcs (world c') = v_svcs (world c)) \<and>
         agg c' = agg c \<and> pushState c' = pushState c"
proof -
  let ?same = "\<lambda>c'. v_deps (world c') = v_deps (world c) \<and> v_svcs (world c') = v_svcs (world c) \<and>
    agg c' = agg c \<and> pushState c' = pushState c \<and> cfg c' = cfg c"
  obtain h c1 where sync: "syncRollout E nd c = (h, c1)" by fastforce
  have held: "?same c1 \<and> h \<noteq> Inr False"
    using held_sync [OF server unique nodes pending closed sync] .
  obtain e c2 where app: "applyCaddy E nd c = (e, c2)" by fastforce
  have 2: "v_deps (world c2) = v_deps (world c) \<and> agg c2 = agg c \<and> pushState c2 = pushState c \<and> cfg c2 = cfg c \<and>
      (\<not> EnableCiliumLB (Deploy (cfg c)) \<longrightarrow> v_svcs (world c2) = v_svcs (world c))"
    using app sync held
    by (auto simp: applyCaddy_def Let_def split: sum.splits if_splits elim!: on_world_cases
        dest!: kube_server.ApplyLoadBalancerService_frame [OF server, THEN untouchedD])
  have "v_deps w' = v_deps w \<and> v_svcs w' = v_svcs w" if "FindActivePod (kube E) opts n w = (x, w')" for opts n w x w'
    using kube_server.FindActivePod_frame [OF server, THEN untouchedD, OF that] by blast
  with run app 2 show ?thesis
    by (auto simp: deployNode_def split: option.splits elim!: on_world_cases)
qed

theorem closed_gate_keeps_deployments_witness:
  "let E = example_env [example_node ''alpha'', example_node ''bravo''] (m_deps pending_cluster);
       c = no_prepull (example_controller pending_cluster)
   in isInService (example_node ''bravo'') \<and>
      fst (rolloutHold (fleet_of E (cfg c) [example_node ''alpha'', example_node ''bravo''] (m_deps pending_cluster))
             ''bravo'' ''caddy:new'') = ''waiting for node alpha to roll out first'' \<and>
      m_deps (world (snd (deployNode E (example_node ''bravo'') c))) = m_deps pending_cluster"
proof -
  let ?nodes = "[example_node ''alpha'', example_node ''bravo'']"
  let ?E = "example_env ?nodes (m_deps pending_cluster)" and ?c = "no_prepull (example_controller pending_cluster)"
  have server: "kube_server (kube ?E) m_deps m_svcs m_pods"
    by (simp add: example_env_def mem.kube_server_axioms)
  have world: "world ?c = pending_cluster" by (simp add: no_prepull_def example_controller_def)
  have unique: "names_unique (m_deps (world ?c))"
    by (simp add: names_unique_def no_prepull_def example_controller_def pending_cluster_def
        example_deployment_def DeploymentName_def)
  have nodes: "nodes_list (caches ?E) (nodeSelector ?c) = Inr ?nodes"
    by (simp add: example_defs no_prepull_def selects_def map_get_def)
  have pending: "r_isPending (nodeRollout_of ?E (cfg ?c) (example_node ''bravo'')
      (cachedDeployment ?E (cfg ?c) (Name (example_node ''bravo''))))"
    by (simp add: nodeRollout_of_def cachedDeployment_def example_defs no_prepull_def pending_cluster_def
        example_deployment_def DeploymentName_def at_def AppliedTemplateHash_def map_str_def map_get_def old_is_pending)
  have name: "Name (example_node n) = n" "CaddyImage (Deploy (cfg ?c)) = ''caddy:new''" for n
    by (simp_all add: example_defs no_prepull_def)
  have gate: "fst (rolloutHold (fleet_of ?E (cfg ?c) ?nodes (m_deps pending_cluster)) ''bravo'' ''caddy:new'') =
      ''waiting for node alpha to roll out first''"
    unfolding pending_fleet by (simp add: rolloutHold_def example_rollout_def)
  have "m_deps (world (snd (deployNode ?E (example_node ''bravo'') ?c))) = m_deps (world ?c)"
    using closed_gate_keeps_deployments [OF server unique nodes pending _ surjective_pairing] gate
    by (simp add: world name)
  moreover have "isInService (example_node ''bravo'')"
    by (simp add: isInService_def example_node_def)
  ultimately show ?thesis using gate world by simp
qed

section \<open>Pre-pull pods\<close>

text \<open>C36. The pre-pull pod of a node is kept in step with its rollout: when synchronising it
  reports no error, then a pre-pull pod that is not needed, pulls another image or has to be
  retried is gone, that very one (same name and UID) and no other, a needed one that was
  missing now exists under its name and no other pod has changed, and in all other cases nothing
  has changed at all. A failed pull is retried
  only when the image is not on the node and the pod is at least a minute old. The server refuses
  a delete for a conflict with the UID only when the pod of that name is another one.\<close>

theorem syncPrePullPod_exact:
  assumes server: "kube_server (kube E) v_deps v_svcs v_pods"
    and uid: "uid_precondition (pods_delete (kube E)) v_pods"
    and run: "syncPrePullPod E r now c = (None, c')"
  defines "img \<equiv> CaddyImage (Deploy (cfg c))" and "ns \<equiv> Namespace (Deploy (cfg c))"
  shows "(case r_prePull r of
            None \<Rightarrow> if r_needsPrePull r
                    then (\<exists>p \<in> set (v_pods (world c')). at ns (PrePullPodName (r_name r)) p) \<and>
                         (\<forall>p. \<not> at ns (PrePullPodName (r_name r)) p \<longrightarrow>
                            (p \<in> set (v_pods (world c')) \<longleftrightarrow> p \<in> set (v_pods (world c))))
                    else c' = c
          | Some p \<Rightarrow> if r_needsPrePull r \<and> PrePullPodImage p = img \<and>
                         (Phase p \<noteq> PodFailed \<or> IsImagePrePulled p \<or> now - CreationTimestamp p < minute)
                      then c' = c
                      else set (v_pods (world c')) =
                             {q \<in> set (v_pods (world c)). \<not> (at ns (Name p) q \<and> UID q = UID p)}) \<and>
         v_deps (world c') = v_deps (world c) \<and> v_svcs (world c') = v_svcs (world c)"
proof -
  have retry: "isRetryablePrePull p now \<longleftrightarrow>
      Phase p = PodFailed \<and> \<not> IsImagePrePulled p \<and> minute \<le> now - CreationTimestamp p" for p
    by (auto simp: isRetryablePrePull_def prePullRetryInterval_def time_Sub_def minute_def second_def)
  note frame = kube_server.syncPrePullPod_frame [OF server run refl]
  have create: "(\<exists>p \<in> set (v_pods (world c')). at ns (PrePullPodName (r_name r)) p) \<and>
      (\<forall>p. \<not> at ns (PrePullPodName (r_name r)) p \<longrightarrow> (p \<in> set (v_pods (world c')) \<longleftrightarrow> p \<in> set (v_pods (world c))))"
    if "on_world (CreatePrePullPod (kube E) (Deploy (cfg c)) (r_name r)) c = (None, c')"
    using that kube_server.CreatePrePullPod_effect [OF server] by (fastforce simp: ns_def elim!: on_world_cases)
  have delete: "set (v_pods (world c')) = {q \<in> set (v_pods (world c)). \<not> (at ns (Name p) q \<and> UID q = UID p)}"
    if "on_world (DeletePrePullPod (kube E) (Deploy (cfg c)) p) c = (None, c')" for p
  proof -
    have "on_world (deletePrePullPod (kube E) ns (Name p) (Some (UID p))) c = (None, c')"
      using that by (simp add: ns_def DeletePrePullPod_def on_world_def)
    then obtain w' where w': "deletePrePullPod (kube E) ns (Name p) (Some (UID p)) (world c) = (None, w')" "c' = c\<lparr>world := w'\<rparr>"
      by (rule on_world_cases)
    from kube_server.deletePrePullPod_effect [OF server w'(1)] uid w'(2) show ?thesis
      by (auto dest: removed_exactly)
  qed
  show ?thesis
  proof (cases "r_prePull r")
    case None
    with run create frame show ?thesis by (simp add: syncPrePullPod_def Let_def split: if_splits)
  next
    case (Some p)
    show ?thesis
    proof (cases "r_needsPrePull r \<and> PrePullPodImage p = img \<and> \<not> isRetryablePrePull p now")
      case True
      with run Some have "c' = c" by (simp add: syncPrePullPod_def Let_def img_def)
      with True Some show ?thesis by (auto simp: retry)
    next
      case False
      with run Some have "on_world (DeletePrePullPod (kube E) (Deploy (cfg c)) p) c = (None, c')"
        by (auto simp: syncPrePullPod_def Let_def img_def)
      from delete [OF this] False Some frame show ?thesis by (auto simp: retry)
    qed
  qed
qed

theorem syncPrePullPod_exact_witness:
  "\<exists>c'. syncPrePullPod (example_env [] []) (example_rollout\<lparr>r_name := ''node1'', r_prePull := Some example_pod\<rparr>) 0
          (example_controller (mem_empty\<lparr>m_pods := [example_pod, example_pod\<lparr>UID := ''u2''\<rparr>]\<rparr>)) = (None, c') \<and>
        set (m_pods (world c')) = {example_pod\<lparr>UID := ''u2''\<rparr>} \<and> m_deps (world c') = []"
proof -
  let ?r = "example_rollout\<lparr>r_name := ''node1'', r_prePull := Some example_pod\<rparr>"
    and ?c = "example_controller (mem_empty\<lparr>m_pods := [example_pod, example_pod\<lparr>UID := ''u2''\<rparr>]\<rparr>)"
  have server: "kube_server (kube (example_env [] [])) m_deps m_svcs m_pods"
    "uid_precondition (pods_delete (kube (example_env [] []))) m_pods"
    by (simp_all add: example_env_def mem.kube_server_axioms mem_uid.uid_precondition_axioms)
  have rollout: "r_prePull ?r = Some example_pod" "\<not> r_needsPrePull ?r" by (simp_all add: example_rollout_def)
  have pod: "at ''system'' (Name example_pod) (example_pod\<lparr>UID := u\<rparr>)" "UID example_pod = ''u1''"
    "at ''system'' (Name example_pod) example_pod" for u
    by (simp_all add: example_pod_def at_def)
  have ctl: "Namespace (Deploy (cfg ?c)) = ''system''" "m_pods (world ?c) = [example_pod, example_pod\<lparr>UID := ''u2''\<rparr>]"
    "m_deps (world ?c) = []"
    by (simp_all add: example_defs mem_empty_def)
  obtain c' where run: "syncPrePullPod (example_env [] []) ?r 0 ?c = (None, c')"
    by (simp add: syncPrePullPod_def example_rollout_def on_world_def DeletePrePullPod_def deletePrePullPod_def
        example_pod_def example_defs mem_eval)
  note exact = syncPrePullPod_exact [OF server run]
  have "set (m_pods (world c')) = {q \<in> set (m_pods (world ?c)).
      \<not> (at (Namespace (Deploy (cfg ?c))) (Name example_pod) q \<and> UID q = UID example_pod)}"
    using exact rollout by simp
  also have "\<dots> = {example_pod\<lparr>UID := ''u2''\<rparr>}" unfolding ctl using pod by auto
  finally have "set (m_pods (world c')) = {example_pod\<lparr>UID := ''u2''\<rparr>}" .
  moreover have "m_deps (world c') = []" using exact ctl(3) by simp
  ultimately show ?thesis using run by blast
qed

section \<open>Diagnosis of a held rollout\<close>

lemma rolloutHold_blocker:
  assumes "rolloutHold F n img = (reason, Some b)"
  shows "b \<in> set F \<and> (unpulled img b \<or> \<not> r_isAvailable b) \<and> reason \<noteq> []"
proof (cases "hold_scan n img F (None, None, [])")
  case (Inl x)
  with assms hold_scan_blocked [OF Inl] show ?thesis by (auto simp: rolloutHold_def)
next
  case (Inr x)
  obtain self unav fp where x: "x = (self, unav, fp)" by (cases x)
  from hold_scan_result [OF Inr [unfolded x]] assms Inr x show ?thesis
    by (auto simp: rolloutHold_def split: option.splits if_splits)
qed

text \<open>C40. Reporting why a rollout is stuck never panics: the node that \<^verbatim>\<open>rolloutHold\<close> blames for
  holding the rollout is a node of the fleet that waits for its pre-pull or is down, and looking
  up its problem never dereferences a missing Deployment, for any fleet that \<^verbatim>\<open>listRollouts\<close>
  builds.\<close>

theorem blockerProblem_never_panics:
  assumes "listRollouts E c = (Inr fleet, c1)"
    and "rolloutHold fleet n img = (reason, blocker)"
  shows "blockerProblem E (cfg c) blocker img \<noteq> None \<and>
         (blocker \<noteq> None \<longrightarrow> reason \<noteq> [] \<and> (unpulled img (the blocker) \<or> \<not> r_isAvailable (the blocker)))"
proof (cases blocker)
  case (Some b)
  with assms(2) have b: "b \<in> set fleet" "unpulled img b \<or> \<not> r_isAvailable b" "reason \<noteq> []"
    using rolloutHold_blocker by blast+
  from b(1) assms(1) obtain nd d where "b = nodeRollout_of E (cfg c) nd d"
    by (auto simp: listRollouts_def split: sum.splits prod.splits)
  then have "r_deployment b \<noteq> None" if "\<not> r_isAvailable b"
    using that by (auto simp: nodeRollout_of_def Let_def split: option.splits)
  with b(2) Some have "blockerProblem E (cfg c) blocker img \<noteq> None"
    by (auto simp: blockerProblem_def unpulled_def caddyProblem_def split: sum.splits option.splits)
  with b Some show ?thesis by simp
qed (simp add: blockerProblem_def)

theorem blockerProblem_never_panics_witness:
  "\<exists>fleet c1 blocker. listRollouts (example_env [example_node ''alpha'', example_node ''bravo''] [])
       (no_prepull (example_controller (mem_empty\<lparr>m_deps := [(example_deployment ''alpha'' ''old'')\<lparr>AvailableReplicas := 0\<rparr>,
          example_deployment ''bravo'' ''old'']\<rparr>))) = (Inr fleet, c1) \<and>
     rolloutHold fleet ''bravo'' ''caddy:new'' = (''waiting for node alpha to become available'', blocker) \<and>
     blockerProblem (example_env [example_node ''alpha'', example_node ''bravo''] [])
       (cfg (no_prepull (example_controller mem_empty))) blocker ''caddy:new'' \<noteq> None"
proof -
  let ?E = "example_env [example_node ''alpha'', example_node ''bravo''] []"
    and ?c = "no_prepull (example_controller (mem_empty\<lparr>m_deps := [(example_deployment ''alpha'' ''old'')\<lparr>AvailableReplicas := 0\<rparr>,
          example_deployment ''bravo'' ''old'']\<rparr>))"
  obtain fleet c1 blocker where l: "listRollouts ?E ?c = (Inr fleet, c1)"
    and h: "rolloutHold fleet ''bravo'' ''caddy:new'' = (''waiting for node alpha to become available'', blocker)"
    by (simp add: listRollouts_def on_world_def ListDeployments_def example_defs no_prepull_def mem_eval
        nodeRollout_of_def isInService_def example_deployment_def DeploymentName_def selects_def
        ManagedLabels_eq map_get_def label_consts isRolledOut_def AppliedTemplateHash_def map_str_def old_is_pending
        map_put_def rolloutHold_def)
  have "cfg ?c = cfg (no_prepull (example_controller mem_empty))"
    by (simp add: no_prepull_def example_controller_def)
  with blockerProblem_never_panics [OF l h] l h show ?thesis by metis
qed

end
