(* ===== verification/Reconcile.thy ===== *)
theory Reconcile
  imports Fleet
begin

text \<open>
  \<^verbatim>\<open>pkg/controller/reconcile.go\<close>: one item of the work queue. \<open>pushFn\<close> and \<open>deployFn\<close> are what
  \<^verbatim>\<open>NewController\<close> sets them to, the admin client's \<open>Load\<close> and \<open>deployNode\<close>. A worker is one call
  of \<open>processNextItem\<close> with the key that \<open>queue.Get\<close> returned, \<open>None\<close> when the queue shuts down.
\<close>

section \<open>Push records\<close>

definition configDigest :: "string \<Rightarrow> string" where
  "configDigest configData = hex_encode (Sum256 configData)"

definition pushUpToDate :: "string \<Rightarrow> string \<Rightarrow> string \<Rightarrow> 's controller \<Rightarrow> bool" where
  "pushUpToDate nodeName digest containerID c =
     (if containerID = [] then False
      else case map_get (pushState c) nodeName of
             None \<Rightarrow> False
           | Some record \<Rightarrow> pr_digest record = digest \<and> pr_containerID record = containerID)"

definition recordPush :: "string \<Rightarrow> string \<Rightarrow> string \<Rightarrow> 's controller \<Rightarrow> 's controller" where
  "recordPush nodeName digest containerID c =
     c\<lparr>pushState := map_put nodeName \<lparr>pr_digest = digest, pr_containerID = containerID\<rparr> (pushState c)\<rparr>"

definition clearPushState :: "string \<Rightarrow> 's controller \<Rightarrow> 's controller" where
  "clearPushState nodeName c = c\<lparr>pushState := map_delete nodeName (pushState c)\<rparr>"

definition forceConfigResync :: "'s env \<Rightarrow> 's controller \<Rightarrow> 's controller" where
  "forceConfigResync E c = enqueueManagedNodes E (c\<lparr>pushState := []\<rparr>)"

section \<open>Reconciling\<close>

definition pushFn :: "'s env \<Rightarrow> config \<Rightarrow> string \<Rightarrow> string \<Rightarrow> 's \<Rightarrow> error option \<times> 's" where
  "pushFn E cf = Load (caddy E) (NewAdmin (CaddyAdminOriginKey (Deploy cf)) (ForceReload cf))"

definition teardownNode :: "'s env \<Rightarrow> string \<Rightarrow> 's controller \<Rightarrow> error option \<times> 's controller" where
  "teardownNode E nodeName c =
     (case on_world (Teardown (kube E) (checks E) (Deploy (cfg c)) nodeName) c of
        (Some e, c1) \<Rightarrow> (Some e, c1)
      | (None, c1) \<Rightarrow> (None, clearPushState nodeName c1))"

definition ensureLoaded ::
  "'s env \<Rightarrow> string \<Rightarrow> caddy_pod \<Rightarrow> snapshot \<Rightarrow> 's controller \<Rightarrow> (error + bool) \<times> 's controller" where
  "ensureLoaded E nodeName p snap c =
     (let digest = configDigest (Caddyfile snap) in
      if pushUpToDate nodeName digest (cp_ContainerID p) c then (Inr True, c)
      else if cp_IP p = [] \<or> cp_ContainerID p = [] then (Inr False, c)
      else (case on_world (pushFn E (cfg c) (cp_IP p) (Caddyfile snap)) c of
              (Some e, c1) \<Rightarrow> if is_config_rejected e then (Inr False, c1) else (Inl e, c1)
            | (None, c1) \<Rightarrow> (Inr True, recordPush nodeName digest (cp_ContainerID p) c1)))"

definition accept_snapshot :: "snapshot \<Rightarrow> 's controller \<Rightarrow> 's controller" where
  \<comment> \<open>\<open>if c.aggregator.Accept(snapshot) { c.queue.Add(mirrorKey) }\<close>\<close>
  "accept_snapshot snap c =
     (let (isNew, a) = Accept snap (agg c); c1 = c\<lparr>agg := a\<rparr>
      in if isNew then enqueue (QAdd mirrorKey) c1 else c1)"

definition reconcileNode :: "'s env \<Rightarrow> string \<Rightarrow> 's controller \<Rightarrow> error option \<times> 's controller" where
  "reconcileNode E nodeName c =
     (case nodes_get (caches E) nodeName of
        Inl e \<Rightarrow> if e \<noteq> NotFound then (Some (ErrApi [] e), c) else teardownNode E nodeName c
      | Inr node \<Rightarrow>
          if \<not> isManagedNode c node then teardownNode E nodeName c
          else
            (case deployNode E node c of
               (Inl e, c1) \<Rightarrow> (Some e, c1)
             | (Inr p, c1) \<Rightarrow>
                 (case CurrentMerged (maxSecretSize E) (agg c1) of
                    Inl _ \<Rightarrow> (None, c1)
                  | Inr snap \<Rightarrow>
                      (case ensureLoaded E nodeName p snap c1 of
                         (Inl e, c2) \<Rightarrow> (Some e, c2)
                       | (Inr isLoaded, c2) \<Rightarrow>
                           if \<not> isLoaded then (None, c2) else (None, accept_snapshot snap c2)))))"

definition reconcile :: "'s env \<Rightarrow> string \<Rightarrow> 's controller \<Rightarrow> error option \<times> 's controller" where
  "reconcile E key c =
     (if key = mirrorKey then on_world (PublishMirror (kube E) (agg c)) c else reconcileNode E key c)"

definition processNextItem :: "'s env \<Rightarrow> string option \<Rightarrow> 's controller \<Rightarrow> bool \<times> 's controller" where
  "processNextItem E got c =
     (case got of
        None \<Rightarrow> (False, c)
      | Some key \<Rightarrow>
          (case reconcile E key c of
             (Some e, c1) \<Rightarrow> (True, enqueue (QDone key) (enqueue (QAddRateLimited key) c1))
           | (None, c1) \<Rightarrow> (True, enqueue (QDone key) (enqueue (QForget key) c1))))"

section \<open>Pushing a configuration once\<close>

lemma map_get_recordPush [simp]:
  "map_get (pushState (recordPush n d i c)) m =
     (if m = n then Some \<lparr>pr_digest = d, pr_containerID = i\<rparr> else map_get (pushState c) m)"
  by (simp add: recordPush_def)

lemma recordPush_simps [simp]:
  "agg (recordPush n d i c) = agg c" "cfg (recordPush n d i c) = cfg c" "queue (recordPush n d i c) = queue c"
  "world (recordPush n d i c) = world c" "nodeSelector (recordPush n d i c) = nodeSelector c"
  by (simp_all add: recordPush_def)

lemma pushUpToDate_recordPush:
  "pushUpToDate n d' i' (recordPush n d i c) \<longleftrightarrow> i' \<noteq> [] \<and> d' = d \<and> i' = i"
  by (auto simp: pushUpToDate_def)

lemma ensureLoaded_cases:
  assumes "ensureLoaded E n p s c = (r, c')"
  obtains (current) "r = Inr True" "c' = c" "pushUpToDate n (configDigest (Caddyfile s)) (cp_ContainerID p) c"
  | (not_started) "r = Inr False" "c' = c" "cp_IP p = [] \<or> cp_ContainerID p = []"
      "\<not> pushUpToDate n (configDigest (Caddyfile s)) (cp_ContainerID p) c"
  | (failed) e w' where "pushFn E (cfg c) (cp_IP p) (Caddyfile s) (world c) = (Some e, w')"
      "r = (if is_config_rejected e then Inr False else Inl e)" "c' = c\<lparr>world := w'\<rparr>"
      "\<not> pushUpToDate n (configDigest (Caddyfile s)) (cp_ContainerID p) c"
  | (loaded) w' where "pushFn E (cfg c) (cp_IP p) (Caddyfile s) (world c) = (None, w')" "r = Inr True"
      "c' = recordPush n (configDigest (Caddyfile s)) (cp_ContainerID p) (c\<lparr>world := w'\<rparr>)"
      "cp_ContainerID p \<noteq> []" "\<not> pushUpToDate n (configDigest (Caddyfile s)) (cp_ContainerID p) c"
proof (cases "pushUpToDate n (configDigest (Caddyfile s)) (cp_ContainerID p) c")
  case True
  with assms current show thesis by (simp add: ensureLoaded_def)
next
  case stale: False
  show thesis
  proof (cases "cp_IP p = [] \<or> cp_ContainerID p = []")
    case True
    with assms stale not_started show thesis by (simp add: ensureLoaded_def)
  next
    case False
    obtain x w' where push: "pushFn E (cfg c) (cp_IP p) (Caddyfile s) (world c) = (x, w')" by fastforce
    show thesis
    proof (cases x)
      case None
      with assms stale False push loaded show thesis by (simp add: ensureLoaded_def on_world_def)
    next
      case (Some e)
      with assms stale False push failed show thesis by (auto simp: ensureLoaded_def on_world_def split: if_splits)
    qed
  qed
qed

text \<open>C27. A configuration is pushed to a container once: after a node counts as loaded, loading
  the same snapshot into the same container again sends nothing and changes nothing, while any
  other container on the node (a restarted Caddy, which has forgotten the configuration) and any
  configuration with another digest is not considered up to date. The records of other nodes,
  the queue and the aggregator are not touched.\<close>

theorem ensureLoaded_pushes_once:
  assumes "ensureLoaded E n p s c = (Inr True, c')"
  shows "ensureLoaded E n p s c' = (Inr True, c') \<and> cp_ContainerID p \<noteq> [] \<and>
         (\<forall>d i. pushUpToDate n d i c' \<longleftrightarrow> d = configDigest (Caddyfile s) \<and> i = cp_ContainerID p) \<and>
         (\<forall>m. m \<noteq> n \<longrightarrow> map_get (pushState c') m = map_get (pushState c) m) \<and>
         queue c' = queue c \<and> agg c' = agg c"
  using assms
proof (cases rule: ensureLoaded_cases)
  case current
  then show ?thesis
    by (auto simp: ensureLoaded_def pushUpToDate_def split: if_splits option.splits)
next
  case (failed e w')
  then show ?thesis by (simp split: if_splits)
next
  case (loaded w')
  then show ?thesis
    by (auto simp: ensureLoaded_def pushUpToDate_recordPush)
qed simp

text \<open>A forced resync forgets every push and visits every managed node: afterwards no
  configuration counts as up to date on any node, each managed node is queued, in order, and
  nothing else changes.\<close>

lemma forceConfigResync_repushes:
  assumes "nodes_list (caches E) (nodeSelector c) = Inr nodes"
  shows "(\<forall>n d i. \<not> pushUpToDate n d i (forceConfigResync E c)) \<and>
         forceConfigResync E c = c\<lparr>pushState := [], queue := queue c @ map (\<lambda>n. QAdd (Name n)) nodes\<rparr>"
  using assms by (simp add: forceConfigResync_def enqueueManagedNodes_eq pushUpToDate_def)

section \<open>Outcomes\<close>

lemma accept_snapshot_simps [simp]:
  "cfg (accept_snapshot s c) = cfg c" "world (accept_snapshot s c) = world c"
  "pushState (accept_snapshot s c) = pushState c" "nodeSelector (accept_snapshot s c) = nodeSelector c"
  "agg (accept_snapshot s c) = snd (Accept s (agg c))"
  by (auto simp: accept_snapshot_def Let_def split: prod.splits)

lemma pushUpToDate_accept [simp]: "pushUpToDate n d i (accept_snapshot s c) = pushUpToDate n d i c"
  by (simp add: pushUpToDate_def)

lemma accept_snapshot_reached: "Revision s \<le> acceptedRevision (agg (accept_snapshot s c))"
  by (simp add: Accept_def)

lemma teardownNode_cases:
  assumes "teardownNode E n c = (r, c')"
  obtains w' where "Teardown (kube E) (checks E) (Deploy (cfg c)) n (world c) = (r, w')"
    "c' = (if r = None then clearPushState n (c\<lparr>world := w'\<rparr>) else c\<lparr>world := w'\<rparr>)"
  using assms by (auto simp: teardownNode_def split: prod.splits option.splits elim!: on_world_cases)

definition managed_now :: "'s env \<Rightarrow> string \<Rightarrow> 's controller \<Rightarrow> node \<Rightarrow> bool" where
  "managed_now E n c nd \<longleftrightarrow> nodes_get (caches E) n = Inr nd \<and> isManagedNode c nd"

lemma reconcileNode_cases:
  assumes "reconcileNode E n c = (r, c')"
  obtains (lookup) e where "nodes_get (caches E) n = Inl e" "e \<noteq> NotFound" "r = Some (ErrApi [] e)" "c' = c"
  | (gone) "\<nexists>nd. managed_now E n c nd" "teardownNode E n c = (r, c')"
  | (deploy) nd e where "managed_now E n c nd" "deployNode E nd c = (Inl e, c')" "r = Some e"
  | (unloadable) nd p e where "managed_now E n c nd" "deployNode E nd c = (Inr p, c')"
      "CurrentMerged (maxSecretSize E) (agg c') = Inl e" "r = None"
  | (load) nd p c1 s x c2 where "managed_now E n c nd" "deployNode E nd c = (Inr p, c1)"
      "CurrentMerged (maxSecretSize E) (agg c1) = Inr s" "ensureLoaded E n p s c1 = (x, c2)"
      "r = (case x of Inl e \<Rightarrow> Some e | Inr _ \<Rightarrow> None)" "c' = (if x = Inr True then accept_snapshot s c2 else c2)"
proof (cases "nodes_get (caches E) n")
  case (Inl e)
  with assms lookup gone show thesis by (cases "e = NotFound") (auto simp: reconcileNode_def managed_now_def)
next
  case (Inr nd)
  show thesis
  proof (cases "isManagedNode c nd")
    case False
    with assms gone Inr show thesis by (auto simp: reconcileNode_def managed_now_def)
  next
    case True
    with Inr have m: "managed_now E n c nd" by (simp add: managed_now_def)
    obtain d c1 where d: "deployNode E nd c = (d, c1)" by fastforce
    show thesis
    proof (cases d)
      case (Inl e)
      with assms deploy [OF m] d Inr True show thesis by (auto simp: reconcileNode_def)
    next
      case dep: (Inr p)
      show thesis
      proof (cases "CurrentMerged (maxSecretSize E) (agg c1)")
        case (Inl e)
        with assms unloadable [OF m] d dep Inr True show thesis by (auto simp: reconcileNode_def)
      next
        case snap: (Inr s)
        obtain x c2 where "ensureLoaded E n p s c1 = (x, c2)" by fastforce
        with assms load [OF m, of p c1 s x c2] d dep snap Inr True show thesis
          by (auto simp: reconcileNode_def split: sum.splits if_splits)
      qed
    qed
  qed
qed

lemma clearPushState_simps [simp]:
  "agg (clearPushState n c) = agg c" "cfg (clearPushState n c) = cfg c" "queue (clearPushState n c) = queue c"
  "world (clearPushState n c) = world c" "nodeSelector (clearPushState n c) = nodeSelector c"
  "map_get (pushState (clearPushState n c)) m = (if m = n then None else map_get (pushState c) m)"
  by (simp_all add: clearPushState_def)

definition grows :: "queue_call set \<Rightarrow> 's controller \<Rightarrow> 's controller \<Rightarrow> bool" where
  \<comment> \<open>only the outside and the queue change, and the queue by these calls\<close>
  "grows Q c c' \<longleftrightarrow> (\<exists>w' q. c' = c\<lparr>world := w', queue := queue c @ q\<rparr> \<and> set q \<subseteq> Q)"

lemma grows_refl [simp, intro]: "grows Q c c"
  unfolding grows_def by (rule exI [of _ "world c"], rule exI [of _ "[]"]) simp

lemma grows_trans: "grows Q c c1 \<Longrightarrow> grows Q c1 c2 \<Longrightarrow> grows Q c c2"
proof -
  assume "grows Q c c1" "grows Q c1 c2"
  then obtain w1 q1 w2 q2 where "c1 = c\<lparr>world := w1, queue := queue c @ q1\<rparr>" "set q1 \<subseteq> Q"
      "c2 = c1\<lparr>world := w2, queue := queue c1 @ q2\<rparr>" "set q2 \<subseteq> Q"
    unfolding grows_def by blast
  then have "c2 = c\<lparr>world := w2, queue := queue c @ (q1 @ q2)\<rparr>" "set (q1 @ q2) \<subseteq> Q" by auto
  then show "grows Q c c2" unfolding grows_def by blast
qed

lemma grows_world [intro]: "on_world call c = (r, c') \<Longrightarrow> grows Q c c'"
  by (elim on_world_cases, unfold grows_def, rule exI, rule exI [of _ "[]"]) simp

lemma grows_enqueue: "q \<in> Q \<Longrightarrow> grows Q c (enqueue q c)"
  unfolding grows_def enqueue_def by (rule exI [of _ "world c"], rule exI [of _ "[q]"]) simp

lemma grows_apply_deployment: "apply_deployment E n c = (r, c') \<Longrightarrow> grows Q c c'"
  by (auto simp: apply_deployment_def split: prod.splits option.splits)

lemma grows_listRollouts: "listRollouts E c = (r, c') \<Longrightarrow> grows Q c c'"
  by (auto simp: listRollouts_def split: prod.splits sum.splits)

lemma grows_syncPrePullPod: "syncPrePullPod E r now c = (e, c') \<Longrightarrow> grows Q c c'"
  by (auto simp: syncPrePullPod_def Let_def split: option.splits if_splits)

lemma grows_admitRollout:
  assumes "admitRollout E n c = (r, c')"
  shows "grows {QAddAfter n requeueInterval} c c'"
proof -
  obtain l c1 where l: "listRollouts E c = (l, c1)" by fastforce
  with assms show ?thesis
    by (auto simp: admitRollout_def Let_def split: sum.splits prod.splits if_splits
        intro: grows_listRollouts grows_trans [OF grows_listRollouts grows_enqueue]
          grows_trans [OF grows_listRollouts grows_apply_deployment])
qed

lemma grows_syncRollout:
  assumes "syncRollout E nd c = (r, c')"
  shows "grows {QAddAfter (Name nd) requeueInterval} c c'"
proof -
  obtain e c1 where "syncPrePullPod E (nodeRollout_of E (cfg c) nd (cachedDeployment E (cfg c) (Name nd))) (clock E) c = (e, c1)"
    by fastforce
  with assms show ?thesis
    by (auto simp: syncRollout_def Let_def split: option.splits if_splits
        intro: grows_syncPrePullPod grows_trans [OF grows_syncPrePullPod grows_apply_deployment]
          grows_trans [OF grows_syncPrePullPod grows_admitRollout])
qed

lemma grows_applyCaddy:
  assumes "applyCaddy E nd c = (r, c')"
  shows "grows {QAddAfter (Name nd) requeueInterval} c c'"
proof -
  obtain h c1 where h: "syncRollout E nd c = (h, c1)" by fastforce
  have "grows Q c1 c'" if "h = Inr b" for b Q
  proof (cases b)
    case True
    with assms h that show ?thesis by (auto simp: applyCaddy_def Let_def split: if_splits)
  next
    case False
    let ?call = "EnsureLoadBalancerService (kube E) (checks E) (Deploy (cfg c1)) (Name nd)
      (case map_get (ExternalEndpoints (cfg c1)) (Name nd) of None \<Rightarrow> [] | Some ips \<Rightarrow> ips)"
    obtain e c2 where c2: "on_world ?call c1 = (e, c2)" by fastforce
    have "grows Q c2 c'"
      using assms h that False c2 by (cases e) (auto simp: applyCaddy_def Let_def)
    then show ?thesis by (rule grows_trans [OF grows_world [OF c2]])
  qed
  moreover have "c' = c1" if "h = Inl e" for e using assms h that by (simp add: applyCaddy_def)
  ultimately have "grows {QAddAfter (Name nd) requeueInterval} c1 c'" by (cases h) auto
  then show ?thesis by (rule grows_trans [OF grows_syncRollout [OF h]])
qed

lemma grows_deployNode:
  assumes "deployNode E nd c = (r, c')"
  shows "grows {QAddAfter (Name nd) requeueInterval} c c'"
proof -
  obtain h c1 where h: "applyCaddy E nd c = (h, c1)" by fastforce
  with assms show ?thesis
    by (auto simp: deployNode_def split: option.splits intro: grows_applyCaddy grows_trans [OF grows_applyCaddy grows_world])
qed

lemma grows_simps:
  assumes "grows Q c c'"
  shows "agg c' = agg c" "cfg c' = cfg c" "pushState c' = pushState c" "nodeSelector c' = nodeSelector c"
    "\<exists>q. queue c' = queue c @ q \<and> set q \<subseteq> Q"
  using assms by (auto simp: grows_def)

text \<open>C13. What a successful reconcile of a node means. The node is not managed (any more) and
  has been torn down, with its push record forgotten; or its objects are in place and there is
  nothing to load yet (no loadable configuration, or the container has not started); or Caddy
  rejected the configuration, which leaves the accepted configuration and the push records as
  they were; or the merged configuration is loaded in the node's current container and its
  revision has been accepted. Every other outcome is an error, which requeues the node.\<close>

theorem reconcileNode_success:
  assumes "reconcileNode E n c = (None, c')"
  shows "((\<nexists>nd. managed_now E n c nd) \<and> agg c' = agg c \<and> map_get (pushState c') n = None \<and>
            fst (Teardown (kube E) (checks E) (Deploy (cfg c)) n (world c)) = None) \<or>
         (\<exists>nd p c1. managed_now E n c nd \<and> deployNode E nd c = (Inr p, c1) \<and> agg c1 = agg c \<and>
            (case CurrentMerged (maxSecretSize E) (agg c) of
               Inl e \<Rightarrow> c' = c1
             | Inr s \<Rightarrow>
                 (cp_IP p = [] \<or> cp_ContainerID p = []) \<and> c' = c1 \<or>
                 agg c' = agg c \<and> pushState c' = pushState c \<and>
                   (\<exists>e. fst (pushFn E (cfg c) (cp_IP p) (Caddyfile s) (world c1)) = Some e \<and> is_config_rejected e) \<or>
                 pushUpToDate n (configDigest (Caddyfile s)) (cp_ContainerID p) c' \<and>
                   Revision s \<le> acceptedRevision (agg c')))"
  using assms
proof (cases rule: reconcileNode_cases)
  case gone
  then show ?thesis by (auto elim!: teardownNode_cases)
next
  case (unloadable nd p e)
  then show ?thesis using grows_simps [OF grows_deployNode [OF unloadable(2)]] by auto
next
  case (load nd p c1 s x c2)
  note same = grows_simps [OF grows_deployNode [OF load(2)]]
  have "(cp_IP p = [] \<or> cp_ContainerID p = []) \<and> c' = c1 \<or>
     agg c' = agg c \<and> pushState c' = pushState c \<and>
       (\<exists>e. fst (pushFn E (cfg c) (cp_IP p) (Caddyfile s) (world c1)) = Some e \<and> is_config_rejected e) \<or>
     pushUpToDate n (configDigest (Caddyfile s)) (cp_ContainerID p) c' \<and> Revision s \<le> acceptedRevision (agg c')"
    using load(4)
  proof (cases rule: ensureLoaded_cases)
    case current
    with load(6) accept_snapshot_reached [of s c1] show ?thesis by simp
  next
    case not_started
    with load(6) show ?thesis by simp
  next
    case (failed e w')
    with load(5,6) same show ?thesis by (auto split: if_splits)
  next
    case (loaded w')
    with load(6) accept_snapshot_reached [of s c2] show ?thesis by (simp add: pushUpToDate_recordPush)
  qed
  with load(1-3) same show ?thesis by auto
qed simp_all

section \<open>A reconcile to evaluate\<close>

definition running_pod :: pod where
  "running_pod = example_pod\<lparr>Name := ''caddy-node1-x'', Labels := ManagedLabels ''node1'', Phase := PhaseOther ''Running'',
     PodIP := ''192.0.2.7'', ContainerStatuses := [\<lparr>CsName = caddyContainerName, ContainerID = ''c1'', Started = Some True,
       Waiting = None, Running = True, Terminated = False\<rparr>]\<rparr>"

definition one_node :: "mem env" where
  "one_node = example_env [example_node ''node1''] []"

definition one_node_world :: mem where
  "one_node_world = mem_empty\<lparr>m_pods := [running_pod]\<rparr>"

lemma one_node_managed: "managed_now one_node ''node1'' (example_controller w) (example_node ''node1'')"
  by (simp add: managed_now_def one_node_def example_defs isManagedNode_def selects_def map_get_def)

lemma one_node_deploys:
  "\<exists>c1. deployNode one_node (example_node ''node1'') (example_controller one_node_world) =
     (Inr \<lparr>cp_Name = ''caddy-node1-x'', cp_IP = ''192.0.2.7'', cp_ContainerID = ''c1''\<rparr>, c1) \<and>
     agg c1 = example_aggregator \<and> pushState c1 = [] \<and> cfg c1 = example_config"
proof -
  have label: "IsLabelValue documented_validators ''node1'' = []"
    by (simp add: example_sel dv.label_value_check label_value_def char_class_defs)
  let ?c = "example_controller one_node_world"
  have cache: "cachedDeployment one_node example_config ''node1'' = None"
    by (simp add: example_sel cachedDeployment_def one_node_def example_caches_def)
  have sync: "syncRollout one_node (example_node ''node1'') ?c = apply_deployment one_node ''node1'' ?c"
    by (simp add: example_sel syncRollout_def cache [unfolded one_node_def] nodeRollout_of_def syncPrePullPod_def one_node_def example_caches_def)
  define d where "d = new_deployment (deploymentApplyConfig (\<lambda>_. ''{}'') example_options ''node1'') None"
  have app: "apply_deployment one_node ''node1'' ?c = (Inr False, ?c\<lparr>world := one_node_world\<lparr>m_deps := [d]\<rparr>\<rparr>)"
    by (simp add: example_sel apply_deployment_def on_world_def ApplyDeployment_def ValidateName_def label one_node_def
        mem_api_def mem_apply_def faulty_def next_fault_def one_node_world_def mem_empty_def upsert_def d_def)
  have name: "Name d = DeploymentName ''node1''"
    by (simp add: example_sel d_def new_deployment_def stamp_def)
  have opts: "EnableCiliumLB example_options = False" "Namespace example_options = ''system''"
    by (simp_all add: example_options_def)
  have "applyCaddy one_node (example_node ''node1'') ?c = (None, ?c\<lparr>world := one_node_world\<lparr>m_deps := [d]\<rparr>\<rparr>)"
    unfolding applyCaddy_def sync app
    by (simp add: example_sel opts EnsureLoadBalancerService_def deleteServicesExcept_def on_world_def
        DeleteStaleDeployments_def deleteDeploymentsExcept_def one_node_def mem_api_def mem_list_def faulty_def
        next_fault_def one_node_world_def mem_empty_def name)
  then show ?thesis
    by (simp add: example_sel deployNode_def on_world_def FindActivePod_def opts one_node_def mem_api_def mem_list_def faulty_def
        next_fault_def one_node_world_def mem_empty_def managedListOptions_def running_pod_def example_pod_def
        selects_def ManagedLabels_eq map_get_def label_consts selectNewestActivePod_def IsActivePod_def
        startedCaddyContainerID_def)
qed

lemma one_node_push:
  "conf \<noteq> ''bad'' @ nl \<Longrightarrow> pushFn one_node example_config ip conf w = (None, w)"
  by (simp add: pushFn_def one_node_def example_env_def example_config_def example_options_def load_eval)

lemma one_node_rejects: "\<exists>e. pushFn one_node example_config ip (''bad'' @ nl) w = (Some e, w) \<and> is_config_rejected e"
  by (simp add: pushFn_def one_node_def example_env_def example_config_def example_options_def load_eval
      is_config_rejected_def)

theorem ensureLoaded_pushes_once_witness:
  "\<exists>c'. ensureLoaded one_node ''node1'' \<lparr>cp_Name = ''caddy-node1-x'', cp_IP = ''192.0.2.7'', cp_ContainerID = ''c1''\<rparr>
          \<lparr>Caddyfile = '':80'', Revision = 1\<rparr> (example_controller one_node_world) = (Inr True, c') \<and>
        pushUpToDate ''node1'' (configDigest '':80'') ''c1'' c' \<and>
        \<not> pushUpToDate ''node1'' (configDigest '':80'') ''c2'' c'"
proof -
  let ?p = "\<lparr>cp_Name = ''caddy-node1-x'', cp_IP = ''192.0.2.7'', cp_ContainerID = ''c1''\<rparr>"
    and ?s = "\<lparr>Caddyfile = '':80'', Revision = 1\<rparr>"
  obtain c' where run: "ensureLoaded one_node ''node1'' ?p ?s (example_controller one_node_world) = (Inr True, c')"
    by (simp add: ensureLoaded_def pushUpToDate_def on_world_def one_node_push example_sel)
  from ensureLoaded_pushes_once [OF run] run show ?thesis by auto
qed

lemma forceConfigResync_repushes_example:
  "let c = recordPush ''node1'' (configDigest '':80'') ''c1'' (example_controller one_node_world) in
   pushUpToDate ''node1'' (configDigest '':80'') ''c1'' c \<and>
   \<not> pushUpToDate ''node1'' (configDigest '':80'') ''c1'' (forceConfigResync one_node c) \<and>
   queue (forceConfigResync one_node c) = [QAdd ''node1'']"
proof -
  let ?c = "recordPush ''node1'' (configDigest '':80'') ''c1'' (example_controller one_node_world)"
  have "nodes_list (caches one_node) (nodeSelector ?c) = Inr [example_node ''node1'']"
    by (simp add: one_node_def example_sel example_caches_def)
      (simp add: example_node_def selects_def map_get_def)
  note r = forceConfigResync_repushes [OF this]
  have "queue (forceConfigResync one_node ?c) = [QAdd ''node1'']"
    unfolding r [THEN conjunct2] by (simp add: example_sel)
  moreover have "pushUpToDate ''node1'' (configDigest '':80'') ''c1'' ?c" by (simp add: pushUpToDate_recordPush)
  ultimately show ?thesis unfolding Let_def using r [THEN conjunct1] by blast
qed

lemma one_node_reconciles: "\<exists>c'. reconcileNode one_node ''node1'' (example_controller one_node_world) = (None, c')"
proof -
  obtain c1 where d: "deployNode one_node (example_node ''node1'') (example_controller one_node_world) =
      (Inr \<lparr>cp_Name = ''caddy-node1-x'', cp_IP = ''192.0.2.7'', cp_ContainerID = ''c1''\<rparr>, c1)"
    "agg c1 = example_aggregator" "cfg c1 = example_config"
    using one_node_deploys by blast
  have m: "nodes_get (caches one_node) ''node1'' = Inr (example_node ''node1'')"
    "isManagedNode (example_controller one_node_world) (example_node ''node1'')"
    using one_node_managed by (auto simp: managed_now_def)
  show ?thesis
  proof (cases "CurrentMerged (maxSecretSize one_node) example_aggregator")
    case (Inl e)
    with d m show ?thesis by (simp add: reconcileNode_def)
  next
    case (Inr s)
    have "\<exists>e. pushFn one_node example_config ''192.0.2.7'' (Caddyfile s) (world c1) = (e, world c1) \<and>
        (case e of None \<Rightarrow> True | Some e \<Rightarrow> is_config_rejected e)"
      using one_node_push one_node_rejects by (cases "Caddyfile s = ''bad'' @ nl") fastforce+
    with Inr d m show ?thesis
      by (auto simp: reconcileNode_def ensureLoaded_def Let_def on_world_def split: option.splits)
  qed
qed

theorem reconcileNode_success_witness:
  "\<exists>c' p c1. reconcileNode one_node ''node1'' (example_controller one_node_world) = (None, c') \<and>
     managed_now one_node ''node1'' (example_controller one_node_world) (example_node ''node1'') \<and>
     deployNode one_node (example_node ''node1'') (example_controller one_node_world) = (Inr p, c1) \<and>
     agg c1 = example_aggregator"
proof -
  obtain c' where run: "reconcileNode one_node ''node1'' (example_controller one_node_world) = (None, c')"
    using one_node_reconciles by blast
  have unique: "nd = example_node ''node1''"
    if "managed_now one_node ''node1'' (example_controller one_node_world) nd" for nd
    using that one_node_managed by (auto simp: managed_now_def)
  from reconcileNode_success [OF run] one_node_managed unique run show ?thesis
    by (fastforce simp: example_sel)
qed

section \<open>Nodes that are not managed\<close>

text \<open>C16. A node that has disappeared or lost its label is removed and never deployed to: a
  reconcile of it leaves the aggregator and the queue alone and no object of another node is
  lost; when it succeeds, exactly the node's Services and Deployments and its pre-pull pod are
  gone and its push record is forgotten.\<close>

theorem unmanaged_node_is_removed:
  assumes server: "kube_server (kube E) v_deps v_svcs v_pods"
    and label: "IsLabelValue (checks E) n = []"
    and unique: "names_unique (v_deps (world c))" "names_unique (v_svcs (world c))"
    and unmanaged: "nodes_get (caches E) n = Inl NotFound \<or>
      (\<exists>nd. nodes_get (caches E) n = Inr nd \<and> \<not> isManagedNode c nd)"
    and run: "reconcileNode E n c = (r, c')"
  defines "ns \<equiv> Namespace (Deploy (cfg c))"
  shows "agg c' = agg c \<and> queue c' = queue c \<and>
         keeps_others v_deps (owned ns n []) (world c) (world c') \<and>
         keeps_others v_svcs (owned ns n []) (world c) (world c') \<and>
         (r = None \<longrightarrow>
            set (v_deps (world c')) = {x \<in> set (v_deps (world c)). \<not> owned ns n [] x} \<and>
            set (v_svcs (world c')) = {x \<in> set (v_svcs (world c)). \<not> owned ns n [] x} \<and>
            (\<forall>p \<in> set (v_pods (world c')). \<not> at ns (PrePullPodName n) p) \<and>
            map_get (pushState c') n = None)"
proof -
  have "teardownNode E n c = (r, c')"
    using unmanaged run by (auto simp: reconcileNode_def)
  then obtain w' where t: "Teardown (kube E) (checks E) (Deploy (cfg c)) n (world c) = (r, w')"
    and c': "c' = (if r = None then clearPushState n (c\<lparr>world := w'\<rparr>) else c\<lparr>world := w'\<rparr>)"
    by (rule teardownNode_cases)
  note effect = kube_server.Teardown_effect [OF server t label unique]
  have world: "world c' = w'" "agg c' = agg c" "queue c' = queue c" using c' by auto
  have "set (v_deps w') = {x \<in> set (v_deps (world c)). \<not> owned ns n [] x}" if "r = None"
    by (rule removed_exactly) (use effect that in \<open>auto simp: ns_def\<close>)
  moreover have "set (v_svcs w') = {x \<in> set (v_svcs (world c)). \<not> owned ns n [] x}" if "r = None"
    by (rule removed_exactly) (use effect that in \<open>auto simp: ns_def\<close>)
  moreover have "map_get (pushState c') n = None" if "r = None" using c' that by simp
  ultimately show ?thesis using effect world by (auto simp: ns_def removed_all_def)
qed

theorem unmanaged_node_is_removed_witness:
  "\<exists>c'. reconcileNode (example_env [] []) ''gone'' (example_controller two_nodes) = (None, c') \<and>
        map Name (m_deps (world c')) = [DeploymentName ''node1''] \<and>
        set (m_deps (world c')) = {x \<in> set (m_deps two_nodes). \<not> owned ''system'' ''gone'' [] x}"
proof -
  let ?E = "example_env [] []" and ?c = "example_controller two_nodes"
  have label: "IsLabelValue documented_validators ''gone'' = []"
    by (simp add: dv.label_value_check label_value_def char_class_defs)
  have missing: "nodes_get (caches ?E) ''gone'' = Inl NotFound"
    by (simp add: example_sel example_caches_def)
  obtain c' where run: "reconcileNode ?E ''gone'' ?c = (None, c')"
    and names: "map Name (m_deps (world c')) = [DeploymentName ''node1'']"
    using missing
    by (simp add: reconcileNode_def teardownNode_def on_world_def Teardown_def label example_sel
        deleteServicesExcept_def deleteDeploymentsExcept_def deletePrePullPod_def two_nodes_def mem_eval
        example_options_def managedListOptions_def example_deployment_def selects_def ManagedLabels_eq map_get_def
        label_consts DeploymentName_def errors_Join_def List.map_filter_def)
  have server: "kube_server (kube ?E) m_deps m_svcs m_pods"
    by (simp add: example_sel mem.kube_server_axioms)
  have unique: "names_unique (m_deps (world ?c))" "names_unique (m_svcs (world ?c))"
    by (simp_all add: example_sel two_nodes_def names_unique_def example_deployment_def DeploymentName_def mem_empty_def)
  have "set (m_deps (world c')) = {x \<in> set (m_deps two_nodes). \<not> owned ''system'' ''gone'' [] x}"
    using unmanaged_node_is_removed [OF server _ unique _ run] label missing
    by (simp add: example_sel example_options_def)
  with run names show ?thesis by (intro exI conjI)
qed

section \<open>The work queue\<close>

text \<open>C32. Every key taken from the queue is answered: after the reconcile the key is put back
  with a rate limit if the reconcile failed and forgotten if it succeeded, and in both cases
  marked done last. In between only two things can be queued: the same node again after five
  seconds (its rollout is held) and the mirror key (a new configuration was accepted); the
  mirror key itself queues nothing. A worker stops only at shutdown.\<close>

theorem processNextItem_queue:
  assumes run: "processNextItem E (Some key) c = (go_on, c')"
    and lister: "\<forall>nd. nodes_get (caches E) key = Inr nd \<longrightarrow> Name nd = key"
  shows "go_on \<and>
         (\<exists>q. queue c' = queue c @ q @
                [if fst (reconcile E key c) = None then QForget key else QAddRateLimited key, QDone key] \<and>
              set q \<subseteq> {QAddAfter key requeueInterval, QAdd mirrorKey} \<and> (key = mirrorKey \<longrightarrow> q = []))"
proof -
  obtain r c1 where r: "reconcile E key c = (r, c1)" by fastforce
  have "\<exists>q. queue c1 = queue c @ q \<and> set q \<subseteq> {QAddAfter key requeueInterval, QAdd mirrorKey} \<and>
      (key = mirrorKey \<longrightarrow> q = [])"
  proof (cases "key = mirrorKey")
    case True
    with r show ?thesis by (auto simp: reconcile_def elim!: on_world_cases)
  next
    case False
    with r have "reconcileNode E key c = (r, c1)" by (simp add: reconcile_def)
    then show ?thesis
    proof (cases rule: reconcileNode_cases)
      case gone
      then show ?thesis using False by (auto elim!: teardownNode_cases)
    next
      case (deploy nd e)
      then have "Name nd = key" using lister by (simp add: managed_now_def)
      with grows_simps(5) [OF grows_deployNode [OF deploy(2)]] False show ?thesis by auto
    next
      case (unloadable nd p e)
      then have "Name nd = key" using lister by (simp add: managed_now_def)
      with grows_simps(5) [OF grows_deployNode [OF unloadable(2)]] False show ?thesis by auto
    next
      case (load nd p c2 s x c3)
      then have "Name nd = key" using lister by (simp add: managed_now_def)
      with grows_simps(5) [OF grows_deployNode [OF load(2)]] obtain q where
        q: "queue c2 = queue c @ q" "set q \<subseteq> {QAddAfter key requeueInterval}" by auto
      have "queue c3 = queue c2" using load(4) by (cases rule: ensureLoaded_cases) auto
      moreover have "queue (accept_snapshot s c3) = queue c3 \<or> queue (accept_snapshot s c3) = queue c3 @ [QAdd mirrorKey]"
        by (auto simp: accept_snapshot_def Let_def split: prod.splits)
      ultimately show ?thesis using q load(6) False
        by (auto split: if_splits intro: exI [of _ q] exI [of _ "q @ [QAdd mirrorKey]"])
    qed (use False in auto)
  qed
  with run r show ?thesis by (auto simp: processNextItem_def split: option.splits)
qed

theorem processNextItem_queue_witness:
  "\<exists>go_on c'. processNextItem (example_env [] []) (Some ''gone'') (example_controller mem_empty) = (go_on, c') \<and>
     go_on \<and> (\<exists>q r. queue c' = q @ [r, QDone ''gone''] \<and> r \<in> {QForget ''gone'', QAddRateLimited ''gone''})"
proof -
  obtain go_on c' where run: "processNextItem (example_env [] []) (Some ''gone'') (example_controller mem_empty) = (go_on, c')"
    by fastforce
  have "\<forall>nd. nodes_get (caches (example_env [] [])) ''gone'' = Inr nd \<longrightarrow> Name nd = ''gone''"
    by (simp add: example_sel example_caches_def)
  from processNextItem_queue [OF run this] run show ?thesis by (fastforce simp: example_sel)
qed

end
