(* ===== verification/Controller.thy ===== *)
theory Controller
  imports Reconcile
begin

text \<open>
  \<^verbatim>\<open>pkg/controller/controller.go\<close>: validation of the configuration, construction and the informer
  event handlers; \<^verbatim>\<open>Run\<close> is in \<open>System\<close>. Label selectors are apimachinery's: a selector is a
  record of its matching function, emptiness test and printed form, and \<open>labels_Parse\<close> is a
  parameter. Registering an event handler with an informer is the parameter \<open>AddEventHandler\<close>.
\<close>

section \<open>Validation and construction\<close>

record selector =
  Matches :: "labels \<Rightarrow> bool"
  SelEmpty :: bool
  SelString :: string

record platform =
  labels_Parse :: "string \<Rightarrow> string + selector"
  ToLower :: "string \<Rightarrow> string"
  validation :: validators

fun first_invalid :: "(string \<Rightarrow> error option) \<Rightarrow> string list \<Rightarrow> error option" where
  "first_invalid check [] = None"
| "first_invalid check (x # xs) = (case check x of Some e \<Rightarrow> Some e | None \<Rightarrow> first_invalid check xs)"

definition validate_external :: "platform \<Rightarrow> config \<Rightarrow> error + config" where
  \<comment> \<open>the body of \<open>if config.ExternalEnable\<close>\<close>
  "validate_external P cf =
     (case labels_Parse P (ExternalLabel cf) of
        Inl m \<Rightarrow> Inl (ErrMsg (''invalid external label selector '' @ ExternalLabel cf @ '': '' @ m))
      | Inr externalSelector \<Rightarrow>
          if SelEmpty externalSelector then Inl (ErrMsg ''external label selector must not be empty'')
          else
            let cf = cf\<lparr>ExternalLabel := SelString externalSelector\<rparr> in
            case first_invalid (\<lambda>ns. ValidateName ''external namespace'' ns (IsDNS1123Label (validation P)))
                   (ExternalAllowNamespaces cf @ ExternalDenyNamespaces cf) of
              Some e \<Rightarrow> Inl e
            | None \<Rightarrow> Inr cf)"

definition validate_names :: "validators \<Rightarrow> config \<Rightarrow> error option" where
  "validate_names V cf = errors_Join
     [ValidateName ''namespace'' (CfgNamespace cf) (IsDNS1123Label V),
      ValidateName ''base ConfigMap name'' (BaseConfigMapName cf) (IsDNS1123Subdomain V),
      ValidateName ''boot ConfigMap name'' (CfgBootConfigMapName cf) (IsDNS1123Subdomain V)]"

definition validateConfig :: "platform \<Rightarrow> config \<Rightarrow> error + (config \<times> selector)" where
  "validateConfig P cf =
     (case labels_Parse P (NodeLabel cf) of
        Inl m \<Rightarrow> Inl (ErrMsg (''invalid node label selector '' @ NodeLabel cf @ '': '' @ m))
      | Inr sel \<Rightarrow>
          if ConfigResyncInterval cf < 0 then Inl (ErrMsg ''config resync interval cannot be negative'')
          else case Validate (validation P) (ToLower P) (Deploy cf) of
            Some e \<Rightarrow> Inl e
          | None \<Rightarrow>
              (case (if ExternalEnable cf then validate_external P cf else Inr cf) of
                 Inl e \<Rightarrow> Inl e
               | Inr cf1 \<Rightarrow>
                   (case validate_names (validation P) cf1 of
                      Some e \<Rightarrow> Inl e
                    | None \<Rightarrow>
                        if CfgBootConfigMapName cf1 = BaseConfigMapName cf1
                        then Inl (ErrMsg ''external aggregated config name must differ from the base config-map name'')
                        else Inr (cf1, sel))))"

datatype informer =
    NodesInformer
  | ConfigMapsInformer
  | DeploymentsInformer
  | PodsInformer
  | ServicesInformer
  | ExternalConfigMapsInformer string

definition register :: "(informer \<Rightarrow> error option) \<Rightarrow> informer \<Rightarrow> informer list \<Rightarrow> error option \<times> informer list" where
  "register AddEventHandler i cacheSyncs =
     (case AddEventHandler i of Some e \<Rightarrow> (Some e, cacheSyncs) | None \<Rightarrow> (None, cacheSyncs @ [i]))"

definition setupInformers :: "(informer \<Rightarrow> error option) \<Rightarrow> config \<Rightarrow> error option \<times> informer list" where
  "setupInformers AddEventHandler cf =
     (let (e1, s1) = register AddEventHandler NodesInformer [];
          (e2, s2) = register AddEventHandler ConfigMapsInformer s1;
          (e3, s3) = register AddEventHandler DeploymentsInformer s2;
          (e4, s4) = register AddEventHandler PodsInformer s3;
          (e5, s5) = register AddEventHandler ServicesInformer s4;
          err = errors_Join [e1, e2, e3, e4, e5]
      in if err \<noteq> None \<or> \<not> ExternalEnable cf then (err, s5)
         else register AddEventHandler (ExternalConfigMapsInformer (ExternalLabel cf)) s5)"

definition NewController ::
  "platform \<Rightarrow> (informer \<Rightarrow> error option) \<Rightarrow> config \<Rightarrow> 's \<Rightarrow> error + 's controller" where
  "NewController P AddEventHandler cf w =
     (case validateConfig P cf of
        Inl e \<Rightarrow> Inl e
      | Inr (cf1, sel) \<Rightarrow>
          let cf2 = cf1\<lparr>Deploy := (Deploy cf1)\<lparr>Namespace := CfgNamespace cf1,
                                              BootConfigMapName := CfgBootConfigMapName cf1\<rparr>\<rparr>;
              adm = NewAdmin (CaddyAdminOriginKey (Deploy cf2)) (ForceReload cf2);
              c = \<lparr>cfg = cf2, agg = New (CfgNamespace cf2) (CfgBootConfigMapName cf2) (BootstrapCaddyfile adm) True,
                   nodeSelector = Matches sel, queue = [], pushState = [], world = w\<rparr>
          in case fst (setupInformers AddEventHandler cf2) of
               Some e \<Rightarrow> Inl e
             | None \<Rightarrow> Inr c)"

section \<open>Event handlers\<close>

datatype kobject =
    ONode node
  | OConfigMap config_map
  | ODeployment deployment
  | OPod pod
  | OService service

datatype any_obj =
    Typed kobject
  | DeletedFinalStateUnknown kobject
  | Unrecognised

definition tombstone :: "(kobject \<Rightarrow> 'a option) \<Rightarrow> any_obj \<Rightarrow> 'a option" where
  "tombstone typed obj =
     (case obj of Typed x \<Rightarrow> typed x | DeletedFinalStateUnknown x \<Rightarrow> typed x | Unrecognised \<Rightarrow> None)"

definition cast :: "(kobject \<Rightarrow> 'a option) \<Rightarrow> any_obj \<Rightarrow> 'a option" where
  \<comment> \<open>the type assertion \<open>obj.(T)\<close>\<close>
  "cast typed obj = (case obj of Typed x \<Rightarrow> typed x | _ \<Rightarrow> None)"

definition as_node :: "kobject \<Rightarrow> node option" where
  "as_node x = (case x of ONode n \<Rightarrow> Some n | _ \<Rightarrow> None)"

definition as_config_map :: "kobject \<Rightarrow> config_map option" where
  "as_config_map x = (case x of OConfigMap m \<Rightarrow> Some m | _ \<Rightarrow> None)"

definition as_object :: "kobject \<Rightarrow> object_meta option" where
  \<comment> \<open>every typed object is a \<open>metav1.Object\<close>\<close>
  "as_object x = Some (case x of
      ONode n \<Rightarrow> object_meta.truncate n | OConfigMap m \<Rightarrow> object_meta.truncate m
    | ODeployment d \<Rightarrow> object_meta.truncate d | OPod p \<Rightarrow> object_meta.truncate p
    | OService s \<Rightarrow> object_meta.truncate s)"

definition enqueueNodeIfManaged :: "node \<Rightarrow> 's controller \<Rightarrow> 's controller" where
  "enqueueNodeIfManaged n c = (if isManagedNode c n then enqueue (QAdd (Name n)) c else c)"

definition node_AddFunc :: "any_obj \<Rightarrow> 's controller \<Rightarrow> 's controller" where
  "node_AddFunc obj c = (case cast as_node obj of Some n \<Rightarrow> enqueueNodeIfManaged n c | None \<Rightarrow> c)"

definition node_UpdateFunc :: "any_obj \<Rightarrow> any_obj \<Rightarrow> 's controller \<Rightarrow> 's controller" where
  "node_UpdateFunc oldObj newObj c =
     (case cast as_node newObj of
        None \<Rightarrow> c
      | Some newNode \<Rightarrow>
          if isManagedNode c newNode \<or>
             (case cast as_node oldObj of Some oldNode \<Rightarrow> isManagedNode c oldNode | None \<Rightarrow> False)
          then enqueue (QAdd (Name newNode)) c else c)"

definition node_DeleteFunc :: "any_obj \<Rightarrow> 's controller \<Rightarrow> 's controller" where
  "node_DeleteFunc obj c = (case tombstone as_node obj of Some n \<Rightarrow> enqueueNodeIfManaged n c | None \<Rightarrow> c)"

text \<open>
  What a ConfigMap handler does with shared memory besides reading it: nothing, one call of
  \<open>queue.Add\<close>, or one update of the aggregator, which on a change calls \<open>enqueueManagedNodes\<close> back
  after it has released its lock. \<open>perform\<close> runs the handler to its end without interruption;
  \<open>System\<close> runs the same actions as separate steps.
\<close>

datatype handler_act =
    Skip
  | AddKey string
  | Change "aggregator \<Rightarrow> bool \<times> aggregator"

definition agg_call :: "'s env \<Rightarrow> (aggregator \<Rightarrow> bool \<times> aggregator) \<Rightarrow> 's controller \<Rightarrow> 's controller" where
  \<comment> \<open>a call of an update of the aggregator and the callback it makes, undisturbed\<close>
  "agg_call E op c =
     (let (callback, a) = op (agg c); c1 = c\<lparr>agg := a\<rparr>
      in if callback then enqueueManagedNodes E c1 else c1)"

definition perform :: "'s env \<Rightarrow> handler_act \<Rightarrow> 's controller \<Rightarrow> 's controller" where
  "perform E act c =
     (case act of Skip \<Rightarrow> c | AddKey key \<Rightarrow> enqueue (QAdd key) c | Change op \<Rightarrow> agg_call E op c)"

definition configMap_act :: "any_obj \<Rightarrow> 's controller \<Rightarrow> handler_act" where
  "configMap_act obj c =
     (case cast as_config_map obj of
        None \<Rightarrow> Skip
      | Some cm \<Rightarrow>
          if Name cm = CfgBootConfigMapName (cfg c) then
            (if \<not> IsMirrorCurrent (agg c) cm then AddKey mirrorKey else Skip)
          else if Name cm \<noteq> BaseConfigMapName (cfg c) then Skip
          else (case map_get (Data cm) CaddyfileKey of
                  None \<Rightarrow> Skip
                | Some data \<Rightarrow> Change (UpdateBase data)))"

definition configMap_handle :: "'s env \<Rightarrow> any_obj \<Rightarrow> 's controller \<Rightarrow> 's controller" where
  "configMap_handle E obj c = perform E (configMap_act obj c) c"

definition configMap_DeleteFunc :: "any_obj \<Rightarrow> 's controller \<Rightarrow> 's controller" where
  "configMap_DeleteFunc obj c =
     (case tombstone as_config_map obj of
        None \<Rightarrow> c
      | Some cm \<Rightarrow> if Name cm = CfgBootConfigMapName (cfg c) then enqueue (QAdd mirrorKey) c else c)"

definition namespaceAllowed :: "config \<Rightarrow> string \<Rightarrow> bool" where
  "namespaceAllowed cf ns =
     (let allowed = ExternalAllowNamespaces cf in
      if ns = CfgNamespace cf \<or> ns \<in> set (ExternalDenyNamespaces cf) then False
      else length allowed = 0 \<or> ns \<in> set allowed)"

definition source_of :: "config_map \<Rightarrow> string" where
  "source_of cm = ObjNamespace cm @ ''/'' @ Name cm"

definition upsert_act :: "any_obj \<Rightarrow> 's controller \<Rightarrow> handler_act" where
  "upsert_act obj c =
     (case cast as_config_map obj of
        None \<Rightarrow> Skip
      | Some cm \<Rightarrow>
          if \<not> namespaceAllowed (cfg c) (ObjNamespace cm) then Skip
          else (case map_get (Data cm) CaddyfileKey of
                  None \<Rightarrow> Change (RemoveExternal (source_of cm))
                | Some fragment \<Rightarrow> Change (SetExternal (source_of cm) fragment)))"

definition external_upsert :: "'s env \<Rightarrow> any_obj \<Rightarrow> 's controller \<Rightarrow> 's controller" where
  "external_upsert E obj c = perform E (upsert_act obj c) c"

definition removal_act :: "any_obj \<Rightarrow> handler_act" where
  "removal_act obj =
     (case tombstone as_config_map obj of
        None \<Rightarrow> Skip
      | Some cm \<Rightarrow> Change (RemoveExternal (source_of cm)))"

definition external_DeleteFunc :: "'s env \<Rightarrow> any_obj \<Rightarrow> 's controller \<Rightarrow> 's controller" where
  "external_DeleteFunc E obj c = perform E (removal_act obj) c"

lemmas handler_defs = configMap_handle_def configMap_act_def external_upsert_def upsert_act_def
  external_DeleteFunc_def removal_act_def perform_def

definition managedObject_enqueue :: "any_obj \<Rightarrow> 's controller \<Rightarrow> 's controller" where
  "managedObject_enqueue obj c =
     (case tombstone as_object obj of
        None \<Rightarrow> c
      | Some x \<Rightarrow> let nodeName = ManagedNodeName x in if nodeName \<noteq> [] then enqueue (QAdd nodeName) c else c)"

section \<open>What validation accepts\<close>

lemma first_invalid_None: "first_invalid check xs = None \<longleftrightarrow> (\<forall>x \<in> set xs. check x = None)"
  by (induction xs) (auto split: option.splits)

lemma validate_names_None:
  "validate_names V cf = None \<longleftrightarrow>
     IsDNS1123Label V (CfgNamespace cf) = [] \<and> IsDNS1123Subdomain V (BaseConfigMapName cf) = [] \<and>
     IsDNS1123Subdomain V (CfgBootConfigMapName cf) = []"
  by (simp add: validate_names_def errors_Join_None ValidateName_None)

definition valid_external :: "platform \<Rightarrow> config \<Rightarrow> bool" where
  "valid_external P cf \<longleftrightarrow>
     (\<exists>es. labels_Parse P (ExternalLabel cf) = Inr es \<and> \<not> SelEmpty es) \<and>
     (\<forall>ns \<in> set (ExternalAllowNamespaces cf) \<union> set (ExternalDenyNamespaces cf). IsDNS1123Label (validation P) ns = [])"

lemma validate_external_Inr:
  "validate_external P cf = Inr cf1 \<longleftrightarrow>
     valid_external P cf \<and>
     (\<exists>es. labels_Parse P (ExternalLabel cf) = Inr es \<and> cf1 = cf\<lparr>ExternalLabel := SelString es\<rparr>)"
proof -
  let ?bad = "first_invalid (\<lambda>ns. ValidateName ''external namespace'' ns (IsDNS1123Label (validation P)))
    (ExternalAllowNamespaces cf @ ExternalDenyNamespaces cf)"
  have "?bad = None \<longleftrightarrow> (\<forall>ns \<in> set (ExternalAllowNamespaces cf) \<union> set (ExternalDenyNamespaces cf).
      IsDNS1123Label (validation P) ns = [])"
    by (simp add: first_invalid_None ValidateName_None)
  then show ?thesis
    by (cases ?bad) (auto simp: validate_external_def valid_external_def Let_def split: sum.splits)
qed

lemma validateConfig_Inr:
  "validateConfig P cf = Inr (cf1, sel) \<longleftrightarrow>
     labels_Parse P (NodeLabel cf) = Inr sel \<and> 0 \<le> ConfigResyncInterval cf \<and>
     Validate (validation P) (ToLower P) (Deploy cf) = None \<and>
     (if ExternalEnable cf then validate_external P cf = Inr cf1 else cf1 = cf) \<and>
     validate_names (validation P) cf1 = None \<and> CfgBootConfigMapName cf1 \<noteq> BaseConfigMapName cf1"
  by (auto simp: validateConfig_def split: sum.splits option.splits if_splits)

text \<open>C34. The controller starts with a configuration exactly when the node selector parses, the
  resync interval is not negative, the deploy options are valid, the namespace and ConfigMap
  names are well-formed, the boot ConfigMap is not the base ConfigMap, and, if external
  aggregation is on, its selector parses and selects by something and the listed namespaces are
  well-formed. The configuration it runs with differs from the given one only in the printed
  form of the external selector.\<close>

theorem validateConfig_accepts_exactly:
  "(\<exists>r. validateConfig P cf = Inr r) \<longleftrightarrow>
     (\<exists>sel. labels_Parse P (NodeLabel cf) = Inr sel) \<and> 0 \<le> ConfigResyncInterval cf \<and>
     Validate (validation P) (ToLower P) (Deploy cf) = None \<and>
     IsDNS1123Label (validation P) (CfgNamespace cf) = [] \<and>
     IsDNS1123Subdomain (validation P) (BaseConfigMapName cf) = [] \<and>
     IsDNS1123Subdomain (validation P) (CfgBootConfigMapName cf) = [] \<and>
     CfgBootConfigMapName cf \<noteq> BaseConfigMapName cf \<and>
     (ExternalEnable cf \<longrightarrow> valid_external P cf)"
    (is "?l \<longleftrightarrow> ?r")
proof
  assume ?l
  then obtain cf1 sel where "validateConfig P cf = Inr (cf1, sel)" by (metis prod.collapse)
  then show ?r
    by (auto simp: validateConfig_Inr validate_external_Inr validate_names_None split: if_splits)
next
  assume r: ?r
  then obtain sel where sel: "labels_Parse P (NodeLabel cf) = Inr sel" by blast
  show ?l
  proof (cases "ExternalEnable cf")
    case True
    with r obtain es where "labels_Parse P (ExternalLabel cf) = Inr es" "valid_external P cf"
      by (auto simp: valid_external_def)
    with True r sel have "validateConfig P cf = Inr (cf\<lparr>ExternalLabel := SelString es\<rparr>, sel)"
      by (simp add: validateConfig_Inr validate_external_Inr validate_names_None)
    then show ?thesis ..
  next
    case False
    with r sel have "validateConfig P cf = Inr (cf, sel)"
      by (simp add: validateConfig_Inr validate_names_None)
    then show ?thesis ..
  qed
qed

definition example_platform :: platform where
  "example_platform = \<lparr>labels_Parse = (\<lambda>s. if s = ''!'' then Inl ''bad selector''
       else Inr \<lparr>Matches = selects [(''caddy'', ''true'')], SelEmpty = (s = []), SelString = s\<rparr>),
     ToLower = (\<lambda>s. s), validation = documented_validators\<rparr>"

theorem validateConfig_accepts_exactly_witness:
  "(\<exists>r. validateConfig example_platform example_config = Inr r) \<and>
   \<not> (\<exists>r. validateConfig example_platform (example_config\<lparr>ExternalEnable := True\<rparr>) = Inr r) \<and>
   \<not> (\<exists>r. validateConfig example_platform (example_config\<lparr>CfgBootConfigMapName := ''base''\<rparr>) = Inr r)"
proof -
  have opts: "Validate documented_validators (\<lambda>s. s) example_options = None"
    by (simp add: Validate_def example_options_def)
  show ?thesis
    unfolding validateConfig_accepts_exactly
    using opts
    by (simp add: example_platform_def example_config_def valid_external_def dv.dns1123_subdomain_check
        dv.dns1123_label_check name_syntax_defs)
qed

section \<open>The aggregator follows the cluster\<close>

text \<open>
  The external ConfigMaps of the cluster as the informer reports them: an upsert (added or
  updated) or a deletion, which may arrive as the final state or as an unknown one.
\<close>

datatype ext_event = ExtUpsert config_map | ExtDelete bool config_map

fun ext_cluster :: "ext_event \<Rightarrow> (string \<times> string \<Rightarrow> config_map option) \<Rightarrow> (string \<times> string \<Rightarrow> config_map option)" where
  "ext_cluster (ExtUpsert cm) S = S((ObjNamespace cm, Name cm) := Some cm)"
| "ext_cluster (ExtDelete final cm) S = S((ObjNamespace cm, Name cm) := None)"

fun ext_deliver :: "'s env \<times> ext_event \<Rightarrow> 's controller \<Rightarrow> 's controller" where
  "ext_deliver (E, ExtUpsert cm) c = external_upsert E (Typed (OConfigMap cm)) c"
| "ext_deliver (E, ExtDelete final cm) c =
     external_DeleteFunc E (if final then Typed (OConfigMap cm) else DeletedFinalStateUnknown (OConfigMap cm)) c"

definition ext_fragment :: "config \<Rightarrow> config_map \<Rightarrow> string option" where
  \<comment> \<open>what a ConfigMap contributes: its Caddyfile, if its namespace may contribute\<close>
  "ext_fragment cf cm = (if namespaceAllowed cf (ObjNamespace cm) then map_get (Data cm) CaddyfileKey else None)"

definition plain :: "string \<Rightarrow> bool" where
  "plain ns \<longleftrightarrow> CHR ''/'' \<notin> set ns"

definition tracks :: "(string \<times> string \<Rightarrow> config_map option) \<Rightarrow> 's controller \<Rightarrow> bool" where
  "tracks S c \<longleftrightarrow> (\<forall>ns n cm. S (ns, n) = Some cm \<longrightarrow> ObjNamespace cm = ns \<and> Name cm = n) \<and>
   (\<forall>ns n. plain ns \<longrightarrow>
     map_get (externals (agg c)) (ns @ ''/'' @ n) = Option.bind (S (ns, n)) (ext_fragment (cfg c)))"

lemma source_inj: "plain a \<Longrightarrow> plain b \<Longrightarrow> a @ ''/'' @ m = b @ ''/'' @ n \<longleftrightarrow> a = b \<and> m = n"
proof (induction a arbitrary: b)
  case Nil
  then show ?case by (cases b) (auto simp: plain_def)
next
  case (Cons x a)
  then show ?case by (cases b) (auto simp: plain_def)
qed

lemma agg_call_simps [simp]:
  "agg (agg_call E op c) = snd (op (agg c))" "cfg (agg_call E op c) = cfg c"
  "pushState (agg_call E op c) = pushState c" "world (agg_call E op c) = world c"
  "nodeSelector (agg_call E op c) = nodeSelector c"
  by (simp_all add: agg_call_def enqueueManagedNodes_eq Let_def split: prod.split)

lemma externals_update_simps [simp]:
  "externals (snd (SetExternal s f a)) = map_put s f (externals a)"
  "externals (snd (RemoveExternal s a)) = map_delete s (externals a)"
  by (simp_all add: SetExternal_def RemoveExternal_def update_def Let_def)

fun ext_object :: "ext_event \<Rightarrow> config_map" where
  "ext_object (ExtUpsert cm) = cm"
| "ext_object (ExtDelete final cm) = cm"

lemma tracks_step:
  assumes "tracks S c" "plain (ObjNamespace (ext_object ev))"
  shows "tracks (ext_cluster ev S) (ext_deliver (E, ev) c) \<and> cfg (ext_deliver (E, ev) c) = cfg c"
proof (cases ev)
  case (ExtUpsert cm)
  have eq: "ns @ ''/'' @ n = source_of cm \<longleftrightarrow> ns = ObjNamespace cm \<and> n = Name cm" if "plain ns" for ns n
    using assms(2) that source_inj [of ns "ObjNamespace cm" n "Name cm"] by (simp add: source_of_def ExtUpsert)
  show ?thesis
  proof (cases "namespaceAllowed (cfg c) (ObjNamespace cm)")
    case False
    moreover have "Option.bind (S (ObjNamespace cm, n)) (ext_fragment (cfg c)) = None" for n
      using assms(1) False by (cases "S (ObjNamespace cm, n)") (auto simp: tracks_def ext_fragment_def)
    ultimately show ?thesis using assms(1) ExtUpsert
      by (auto simp: handler_defs cast_def as_config_map_def tracks_def ext_fragment_def [of _ cm])
  next
    case True
    with assms(1) ExtUpsert eq show ?thesis
      by (cases "map_get (Data cm) CaddyfileKey")
        (auto simp: handler_defs cast_def as_config_map_def tracks_def ext_fragment_def)
  qed
next
  case (ExtDelete final cm)
  have eq: "ns @ ''/'' @ n = source_of cm \<longleftrightarrow> ns = ObjNamespace cm \<and> n = Name cm" if "plain ns" for ns n
    using assms(2) that source_inj [of ns "ObjNamespace cm" n "Name cm"] by (simp add: source_of_def ExtDelete)
  with assms(1) ExtDelete show ?thesis
    by (cases final) (auto simp: handler_defs tombstone_def as_config_map_def tracks_def)
qed

text \<open>C11. The external fragments follow the cluster. Whatever sequence of additions, updates and
  deletions of external ConfigMaps the informer reports, the aggregator holds exactly the
  Caddyfiles of the ConfigMaps that exist at the end, lie in an admissible namespace (not the
  manager's own, not denied, and allowed if an allow list is given) and have a Caddyfile, each
  under its namespace and name; the configuration stays the same.\<close>

theorem externals_track_cluster:
  assumes "tracks S c"
    and "\<forall>(E, ev) \<in> set evs. plain (ObjNamespace (ext_object ev))"
  shows "tracks (fold (\<lambda>(E, ev). ext_cluster ev) evs S) (fold ext_deliver evs c) \<and>
         cfg (fold ext_deliver evs c) = cfg c"
  using assms
proof (induction evs arbitrary: S c)
  case (Cons p evs)
  obtain E ev where p: "p = (E, ev)" by fastforce
  have step: "tracks (ext_cluster ev S) (ext_deliver (E, ev) c)" "cfg (ext_deliver (E, ev) c) = cfg c"
    using tracks_step [of S c ev E] Cons.prems p by auto
  show ?case using Cons.IH [OF step(1)] Cons.prems(2) step(2) p by auto
qed simp

definition external_cm :: "string \<Rightarrow> string \<Rightarrow> string \<Rightarrow> config_map" where
  "external_cm ns n f = blank_config_map\<lparr>ObjNamespace := ns, Name := n, Data := [(CaddyfileKey, f)]\<rparr>"

theorem externals_track_cluster_witness:
  "let c = (example_controller mem_empty)\<lparr>agg := New ''system'' ''boot'' ''bootstrap'' True\<rparr>;
       c' = fold ext_deliver [(one_node, ExtUpsert (external_cm ''team'' ''web'' ''one'')),
              (one_node, ExtUpsert (external_cm ''system'' ''web'' ''own'')),
              (one_node, ExtUpsert (external_cm ''team'' ''api'' ''two'')),
              (one_node, ExtDelete False (external_cm ''team'' ''web'' ''one''))] c
   in map_get (externals (agg c')) ''team/api'' = Some ''two'' \<and>
      map_get (externals (agg c')) ''team/web'' = None \<and>
      map_get (externals (agg c')) ''system/web'' = None"
proof -
  let ?c = "(example_controller mem_empty)\<lparr>agg := New ''system'' ''boot'' ''bootstrap'' True\<rparr>"
    and ?evs = "[(one_node, ExtUpsert (external_cm ''team'' ''web'' ''one'')),
              (one_node, ExtUpsert (external_cm ''system'' ''web'' ''own'')),
              (one_node, ExtUpsert (external_cm ''team'' ''api'' ''two'')),
              (one_node, ExtDelete False (external_cm ''team'' ''web'' ''one''))]"
  let ?S = "fold (\<lambda>(E, ev). ext_cluster ev) ?evs (\<lambda>_. None)"
  have init: "tracks (\<lambda>_. None) ?c" by (simp add: tracks_def New_def)
  have ok: "\<forall>(E, ev) \<in> set ?evs. plain (ObjNamespace (ext_object ev))"
    by (simp add: plain_def external_cm_def)
  have cfg: "cfg (fold ext_deliver ?evs ?c) = example_config" and t: "tracks ?S (fold ext_deliver ?evs ?c)"
    using externals_track_cluster [OF init ok] by (simp_all add: example_sel)
  have look: "map_get (externals (agg (fold ext_deliver ?evs ?c))) (ns @ ''/'' @ n) =
      Option.bind (?S (ns, n)) (ext_fragment example_config)" if "plain ns" for ns n
    using t that cfg unfolding tracks_def by metis
  have "Option.bind (?S (''team'', ''api'')) (ext_fragment example_config) = Some ''two''"
    "Option.bind (?S (''team'', ''web'')) (ext_fragment example_config) = None"
    "Option.bind (?S (''system'', ''web'')) (ext_fragment example_config) = None"
    by (simp_all add: external_cm_def ext_fragment_def namespaceAllowed_def example_config_def map_get_def)
  with look [of "''team''" "''api''"] look [of "''team''" "''web''"] look [of "''system''" "''web''"] show ?thesis
    unfolding Let_def by (simp add: plain_def)
qed

section \<open>The boot ConfigMap\<close>

lemma stored_mirror_current:
  "mirrors a (accepted a) (Some cm) \<Longrightarrow> IsMirrorCurrent a cm"
  by (auto simp: mirrors_def IsMirrorCurrent_def Let_def)

text \<open>C26. Publishing the boot ConfigMap settles, and it never feeds back. After the mirror key
  has been reconciled without error, the boot ConfigMap in the cluster is current and the event
  that reports it queues nothing. Any other content under that name, and its deletion, only
  queues the mirror key; none of these events changes the aggregator, and through the external
  informer the boot ConfigMap is ignored altogether, since it lies in the manager's own
  namespace.\<close>

theorem mirror_settles:
  assumes store: "config_store (configmaps_get (kube E)) (configmaps_apply (kube E)) look"
    and names: "ag_namespace (agg c) = CfgNamespace (cfg c)" "mirrorName (agg c) = CfgBootConfigMapName (cfg c)"
    and run: "reconcile E mirrorKey c = (None, c')"
  shows "(\<exists>cm. look (CfgNamespace (cfg c)) (CfgBootConfigMapName (cfg c)) (world c') = Some cm \<and>
            IsMirrorCurrent (agg c') cm \<and>
            (Name cm = CfgBootConfigMapName (cfg c) \<longrightarrow> configMap_handle E (Typed (OConfigMap cm)) c' = c')) \<and>
         (\<forall>cm. Name cm = CfgBootConfigMapName (cfg c) \<and> ObjNamespace cm = CfgNamespace (cfg c) \<longrightarrow>
            configMap_handle E (Typed (OConfigMap cm)) c' \<in> {c', enqueue (QAdd mirrorKey) c'} \<and>
            configMap_DeleteFunc (Typed (OConfigMap cm)) c' = enqueue (QAdd mirrorKey) c' \<and>
            external_upsert E (Typed (OConfigMap cm)) c' = c') \<and>
         agg c' = agg c \<and> queue c' = queue c"
proof -
  obtain w' where p: "PublishMirror (kube E) (agg c) (world c) = (None, w')" and c': "c' = c\<lparr>world := w'\<rparr>"
    using run by (auto simp: reconcile_def elim!: on_world_cases)
  have "publishMirror (kube E) (agg c) (accepted (agg c)) (world c) = (None, w')"
    using p by (auto simp: PublishMirror_def split: if_splits)
  from config_store.publishMirror_stores [OF store refl refl this]
  obtain cm where cm: "look (CfgNamespace (cfg c)) (CfgBootConfigMapName (cfg c)) w' = Some cm"
    "mirrors (agg c) (accepted (agg c)) (Some cm)"
    using names by (auto simp: mirrors_def)
  have "IsMirrorCurrent (agg c) cm" by (rule stored_mirror_current [OF cm(2)])
  with cm(1) c' show ?thesis
    by (auto simp: handler_defs configMap_DeleteFunc_def cast_def tombstone_def
        as_config_map_def namespaceAllowed_def)
qed

theorem mirror_settles_witness:
  "\<exists>c' cm. reconcile (example_env [] []) mirrorKey ((example_controller mem_empty)\<lparr>agg := example_aggregator\<lparr>accepted := ''loaded''\<rparr>\<rparr>)
       = (None, c') \<and> mem_find_cm ''system'' ''boot'' (world c') = Some cm \<and> IsMirrorCurrent (agg c') cm \<and> queue c' = []"
proof -
  let ?E = "example_env [] []" and ?a = "example_aggregator\<lparr>accepted := ''loaded''\<rparr>"
  let ?c = "(example_controller mem_empty)\<lparr>agg := ?a\<rparr>"
  obtain w1 where w1: "publishMirror mem_api ?a ''loaded'' mem_empty = (None, w1)"
    using mem_publish [of mem_empty ?a "''loaded''"] by (auto simp: mem_empty_def)
  obtain c' where run: "reconcile ?E mirrorKey ?c = (None, c')"
    by (simp add: reconcile_def on_world_def example_sel PublishMirror_def w1)
  have store: "config_store (configmaps_get (kube ?E)) (configmaps_apply (kube ?E)) mem_find_cm"
    by (simp add: example_sel mem_cm.config_store_axioms)
  have names: "ag_namespace (agg ?c) = CfgNamespace (cfg ?c)" "mirrorName (agg ?c) = CfgBootConfigMapName (cfg ?c)"
    "CfgNamespace (cfg ?c) = ''system''" "CfgBootConfigMapName (cfg ?c) = ''boot''" "queue ?c = []"
    by (simp_all add: example_sel example_aggregator_def New_def example_config_def)
  from mirror_settles [OF store names(1,2) run] run show ?thesis unfolding names by blast
qed

end
