(* ===== verification/Manager.thy ===== *)
theory Manager
  imports Netip Controller
begin

text \<open>
  \<^verbatim>\<open>cmd/manager/main.go\<close>: the command line, the resolution of the controller's configuration from
  it (endpoints, namespace, modes), logging, the API client and the health probes. The operating
  system and the libraries it calls are the parameter \<open>host\<close>: environment variables, files, the
  host name and process id, standard output, zerolog's level names, client-go's configuration
  loading and the TCP listener.
\<close>

section \<open>Options\<close>

record leaderElectionOptions =
  enabled :: bool
  leaseName :: string
  leaseDuration :: int
  renewDeadline :: int
  retryPeriod :: int

record options =
  kubeconfigPath :: string
  logLevel :: string
  healthBindAddress :: string
  loadBalancerMode :: string
  imagePullPolicy :: string
  externalEndpoints :: "string list"
  leaderElection :: leaderElectionOptions
  opt_controller :: config

definition parseFlags_defaults :: options where
  \<comment> \<open>the options when no flag is given\<close>
  "parseFlags_defaults = \<lparr>
     kubeconfigPath = '''', logLevel = ''info'', healthBindAddress = '':8081'',
     loadBalancerMode = ''none'', imagePullPolicy = ''IfNotPresent'', externalEndpoints = [],
     leaderElection = \<lparr>enabled = True, leaseName = ''ckic-manager-leader'', leaseDuration = 15 * second,
       renewDeadline = 10 * second, retryPeriod = 2 * second\<rparr>,
     opt_controller = \<lparr>
       Deploy = \<lparr>Namespace = '''', BootConfigMapName = '''',
         CaddyImage = ''docker.horse/oss-images/zerossl-caddy/caddy:2.11.9-alpine'', ImagePullPolicy = '''',
         PrePullImage = True, EnableCiliumLB = False, UseHostNetwork = False, EnvSecretName = '''',
         EnvSecretKeys = [], DataVolumePVC = '''', ConfigVolumePVC = '''', CaddyAdminOriginKey = ''''\<rparr>,
       NodeLabel = ''ckic.cmld.ru/enabled=true'', BaseConfigMapName = ''caddy-config'',
       CfgBootConfigMapName = ''ckic-caddy-config-working'', CfgNamespace = '''', ConfigResyncInterval = 0,
       ForceReload = False, ExternalEndpoints = [], ExternalEnable = False,
       ExternalLabel = ''ckic.cmld.ru/aggregate=true'', ExternalAllowNamespaces = [], ExternalDenyNamespaces = []\<rparr>\<rparr>"

text \<open>
  \<^verbatim>\<open>pflag\<close> parses the command line into assignments of values to flags, in order; an unknown flag
  or a value of the wrong type ends the process (\<open>None\<close>). Each flag is bound to a field. A slice or
  array flag that is given more than once collects the values.
\<close>

datatype flag_value = StringV string | BoolV bool | DurationV int | StringsV "string list"

datatype flag_var =
    StringVar "string \<Rightarrow> options \<Rightarrow> options"
  | BoolVar "bool \<Rightarrow> options \<Rightarrow> options"
  | DurationVar "int \<Rightarrow> options \<Rightarrow> options"
  | StringsVar "string list \<Rightarrow> options \<Rightarrow> options"

definition in_cfg :: "(config \<Rightarrow> config) \<Rightarrow> options \<Rightarrow> options" where
  "in_cfg f opts = opts\<lparr>opt_controller := f (opt_controller opts)\<rparr>"

definition in_deploy :: "(deploy_options \<Rightarrow> deploy_options) \<Rightarrow> options \<Rightarrow> options" where
  "in_deploy f = in_cfg (\<lambda>cf. cf\<lparr>Deploy := f (Deploy cf)\<rparr>)"

definition in_le :: "(leaderElectionOptions \<Rightarrow> leaderElectionOptions) \<Rightarrow> options \<Rightarrow> options" where
  "in_le f opts = opts\<lparr>leaderElection := f (leaderElection opts)\<rparr>"

definition flag_vars :: "(string \<times> flag_var) list" where
  "flag_vars =
    [(''kubeconfig'', StringVar (\<lambda>v opts. opts\<lparr>kubeconfigPath := v\<rparr>)),
     (''node-label'', StringVar (\<lambda>v. in_cfg (\<lambda>cf. cf\<lparr>NodeLabel := v\<rparr>))),
     (''config-map'', StringVar (\<lambda>v. in_cfg (\<lambda>cf. cf\<lparr>BaseConfigMapName := v\<rparr>))),
     (''namespace'', StringVar (\<lambda>v. in_cfg (\<lambda>cf. cf\<lparr>CfgNamespace := v\<rparr>))),
     (''config-resync-interval'', DurationVar (\<lambda>v. in_cfg (\<lambda>cf. cf\<lparr>ConfigResyncInterval := v\<rparr>))),
     (''force-reload'', BoolVar (\<lambda>v. in_cfg (\<lambda>cf. cf\<lparr>ForceReload := v\<rparr>))),
     (''health-bind-address'', StringVar (\<lambda>v opts. opts\<lparr>healthBindAddress := v\<rparr>)),
     (''log-level'', StringVar (\<lambda>v opts. opts\<lparr>logLevel := v\<rparr>)),
     (''caddy-image'', StringVar (\<lambda>v. in_deploy (\<lambda>d. d\<lparr>CaddyImage := v\<rparr>))),
     (''image-pull-policy'', StringVar (\<lambda>v opts. opts\<lparr>imagePullPolicy := v\<rparr>)),
     (''prepull-image'', BoolVar (\<lambda>v. in_deploy (\<lambda>d. d\<lparr>PrePullImage := v\<rparr>))),
     (''loadbalancer-mode'', StringVar (\<lambda>v opts. opts\<lparr>loadBalancerMode := v\<rparr>)),
     (''env-secret'', StringVar (\<lambda>v. in_deploy (\<lambda>d. d\<lparr>EnvSecretName := v\<rparr>))),
     (''env-keys'', StringsVar (\<lambda>v. in_deploy (\<lambda>d. d\<lparr>EnvSecretKeys := EnvSecretKeys d @ v\<rparr>))),
     (''data-pvc'', StringVar (\<lambda>v. in_deploy (\<lambda>d. d\<lparr>DataVolumePVC := v\<rparr>))),
     (''config-pvc'', StringVar (\<lambda>v. in_deploy (\<lambda>d. d\<lparr>ConfigVolumePVC := v\<rparr>))),
     (''external-endpoints'', StringsVar (\<lambda>v opts. opts\<lparr>externalEndpoints := externalEndpoints opts @ v\<rparr>)),
     (''use-host-network'', BoolVar (\<lambda>v. in_deploy (\<lambda>d. d\<lparr>UseHostNetwork := v\<rparr>))),
     (''caddy-admin-origin-key'', StringVar (\<lambda>v. in_deploy (\<lambda>d. d\<lparr>CaddyAdminOriginKey := v\<rparr>))),
     (''external-enable'', BoolVar (\<lambda>v. in_cfg (\<lambda>cf. cf\<lparr>ExternalEnable := v\<rparr>))),
     (''external-label'', StringVar (\<lambda>v. in_cfg (\<lambda>cf. cf\<lparr>ExternalLabel := v\<rparr>))),
     (''external-allow-namespaces'',
        StringsVar (\<lambda>v. in_cfg (\<lambda>cf. cf\<lparr>ExternalAllowNamespaces := ExternalAllowNamespaces cf @ v\<rparr>))),
     (''external-deny-namespaces'',
        StringsVar (\<lambda>v. in_cfg (\<lambda>cf. cf\<lparr>ExternalDenyNamespaces := ExternalDenyNamespaces cf @ v\<rparr>))),
     (''external-aggregated-config-name'', StringVar (\<lambda>v. in_cfg (\<lambda>cf. cf\<lparr>CfgBootConfigMapName := v\<rparr>))),
     (''leader-elect'', BoolVar (\<lambda>v. in_le (\<lambda>le. le\<lparr>enabled := v\<rparr>))),
     (''leader-election-lease-name'', StringVar (\<lambda>v. in_le (\<lambda>le. le\<lparr>leaseName := v\<rparr>))),
     (''leader-election-lease-duration'', DurationVar (\<lambda>v. in_le (\<lambda>le. le\<lparr>leaseDuration := v\<rparr>))),
     (''leader-election-renew-deadline'', DurationVar (\<lambda>v. in_le (\<lambda>le. le\<lparr>renewDeadline := v\<rparr>))),
     (''leader-election-retry-period'', DurationVar (\<lambda>v. in_le (\<lambda>le. le\<lparr>retryPeriod := v\<rparr>)))]"

fun assign :: "flag_var \<Rightarrow> flag_value \<Rightarrow> options \<Rightarrow> options option" where
  "assign (StringVar set_var) (StringV v) opts = Some (set_var v opts)"
| "assign (BoolVar set_var) (BoolV v) opts = Some (set_var v opts)"
| "assign (DurationVar set_var) (DurationV v) opts = Some (set_var v opts)"
| "assign (StringsVar set_var) (StringsV v) opts = Some (set_var v opts)"
| "assign _ _ opts = None"

fun assign_flags :: "(string \<times> flag_value) list \<Rightarrow> options \<Rightarrow> options option" where
  "assign_flags [] opts = Some opts"
| "assign_flags ((name, v) # args) opts =
     (case map_of flag_vars name of
        None \<Rightarrow> None
      | Some var \<Rightarrow> Option.bind (assign var v opts) (assign_flags args))"

definition parseFlags :: "(string \<times> flag_value) list \<Rightarrow> options option" where
  "parseFlags args = assign_flags args parseFlags_defaults"

record rest_config =
  QPS :: int
  Server :: string

datatype zerolog_level = NoLevel | Level int

record 'k host =
  os_Getenv :: "string \<Rightarrow> string"
  os_ReadFile :: "string \<Rightarrow> string + string"
  os_Hostname :: "string + string"
  os_Getpid :: nat
  stdout_is_terminal :: bool
  zerolog_ParseLevel :: "string \<Rightarrow> string + zerolog_level"
  ClientConfig :: "string \<Rightarrow> string + rest_config"
  NewForConfig :: "rest_config \<Rightarrow> string + 'k"
  listen_tcp :: "string \<Rightarrow> string + unit"

section \<open>External endpoints\<close>

fun parse_addresses ::
  "string \<Rightarrow> string list \<Rightarrow> string list gomap \<Rightarrow> error + string list gomap" where
  \<comment> \<open>the inner loop of \<open>parseExternalEndpoints\<close>\<close>
  "parse_addresses nodeName [] result = Inr result"
| "parse_addresses nodeName (rawIP # raws) result =
     (let ip = TrimSpace rawIP in
      case ParseIP ip of
        None \<Rightarrow> Inl (ErrMsg (''--external-endpoints: invalid IP address '' @ ip @ '' for node '' @ nodeName))
      | Some parsed \<Rightarrow>
          if \<not> IsGlobalUnicast parsed
          then Inl (ErrMsg (''--external-endpoints: IP address '' @ ip @ '' for node '' @ nodeName @
                 '' must be unicast and cannot be unspecified, loopback or link-local''))
          else
            let canonical = IP_String parsed;
                known = (case map_get result nodeName of None \<Rightarrow> [] | Some ips \<Rightarrow> ips)
            in parse_addresses nodeName raws
                 (if canonical \<notin> set known then map_put nodeName (known @ [canonical]) result else result))"

fun parse_endpoints :: "validators \<Rightarrow> string list \<Rightarrow> string list gomap \<Rightarrow> error + string list gomap" where
  "parse_endpoints V [] result = Inr result"
| "parse_endpoints V (endpoint # es) result =
     (case Cut endpoint ''='' of
        (nodeName, addresses, ok) \<Rightarrow>
          if \<not> ok then Inl (ErrMsg (''--external-endpoints: invalid endpoint '' @ endpoint))
          else
            let nodeName = TrimSpace nodeName in
            if length (IsDNS1123Subdomain V nodeName) > 0
            then Inl (ErrInvalidName ''--external-endpoints: invalid Kubernetes node name'' nodeName (IsDNS1123Subdomain V nodeName))
            else if length (IsLabelValue V nodeName) > 0
            then Inl (ErrInvalidName ''--external-endpoints: cannot be used as an instance label'' nodeName (IsLabelValue V nodeName))
            else (case parse_addresses nodeName (SplitChar CHR '','' addresses) result of
                    Inl e \<Rightarrow> Inl e
                  | Inr result1 \<Rightarrow> parse_endpoints V es result1))"

definition parseExternalEndpoints :: "validators \<Rightarrow> string list \<Rightarrow> error + string list gomap" where
  "parseExternalEndpoints V endpoints = parse_endpoints V endpoints []"

section \<open>The controller's configuration\<close>

definition saNamespacePath :: string where
  "saNamespacePath = ''/var/run/secrets/kubernetes.io/serviceaccount/namespace''"

definition resolveNamespace :: "'k host \<Rightarrow> string \<Rightarrow> error + string" where
  "resolveNamespace H flagValue =
     (if flagValue \<noteq> [] then Inr flagValue
      else
        let env = TrimSpace (os_Getenv H ''CKIC_NAMESPACE'') in
        if env \<noteq> [] then Inr env
        else
          let ns = (case os_ReadFile H saNamespacePath of Inr data \<Rightarrow> TrimSpace data | Inl _ \<Rightarrow> []) in
          if ns \<noteq> [] then Inr ns
          else Inl (ErrMsg ''namespace not set: provide --namespace, CKIC_NAMESPACE, or run in-cluster''))"

definition resolveControllerConfig :: "'k host \<Rightarrow> validators \<Rightarrow> options \<Rightarrow> error + config" where
  "resolveControllerConfig H V opts =
     (let cf = opt_controller opts in
      if loadBalancerMode opts \<noteq> ''none'' \<and> loadBalancerMode opts \<noteq> ''cilium''
      then Inl (ErrMsg (''invalid loadbalancer mode '' @ loadBalancerMode opts))
      else
        let cf1 = (if loadBalancerMode opts = ''cilium''
                   then cf\<lparr>Deploy := (Deploy cf)\<lparr>EnableCiliumLB := True\<rparr>\<rparr> else cf) in
        if imagePullPolicy opts \<notin> {''Always'', ''IfNotPresent'', ''Never''}
        then Inl (ErrMsg (''invalid image pull policy '' @ imagePullPolicy opts))
        else
          let cf2 = cf1\<lparr>Deploy := (Deploy cf1)\<lparr>ImagePullPolicy := imagePullPolicy opts\<rparr>\<rparr> in
          case parseExternalEndpoints V (externalEndpoints opts) of
            Inl e \<Rightarrow> Inl e
          | Inr endpoints \<Rightarrow>
              (case resolveNamespace H (CfgNamespace cf2) of
                 Inl e \<Rightarrow> Inl e
               | Inr ns \<Rightarrow> Inr (cf2\<lparr>ExternalEndpoints := endpoints, CfgNamespace := ns\<rparr>)))"

section \<open>Logging, client and probes\<close>

record logger =
  log_level :: zerolog_level
  log_console :: "bool option"   \<comment> \<open>human-readable output and whether it is without colour; \<open>None\<close>: JSON\<close>
  log_service :: string

definition setupLogger :: "'k host \<Rightarrow> string \<Rightarrow> error + logger" where
  "setupLogger H level =
     (case zerolog_ParseLevel H level of
        Inl m \<Rightarrow> Inl (ErrMsg (''invalid log level '' @ level @ '': '' @ m))
      | Inr parsedLevel \<Rightarrow>
          if parsedLevel = NoLevel then Inl (ErrMsg (''invalid log level '' @ level))
          else Inr \<lparr>log_level = parsedLevel,
                 log_console = (if os_Getenv H ''LOG_FORMAT'' \<noteq> ''json'' then Some (\<not> stdout_is_terminal H) else None),
                 log_service = ''ckic-manager''\<rparr>)"

definition kubernetesClient :: "'k host \<Rightarrow> string \<Rightarrow> error + 'k" where
  "kubernetesClient H path =
     (case ClientConfig H path of
        Inl m \<Rightarrow> Inl (ErrMsg (''failed to build kubernetes config: '' @ m))
      | Inr rc \<Rightarrow>
          (case NewForConfig H (rc\<lparr>QPS := - 1\<rparr>) of
             Inl m \<Rightarrow> Inl (ErrMsg (''failed to create kubernetes client: '' @ m))
           | Inr client \<Rightarrow> Inr client))"

definition leaderElectionIdentity :: "'k host \<Rightarrow> string" where
  "leaderElectionIdentity H =
     (let hostname = (case os_Hostname H of Inr h \<Rightarrow> h | Inl _ \<Rightarrow> ''ckic-manager'')
      in hostname @ ''-'' @ Itoa (os_Getpid H))"

definition probeReadHeaderTimeout :: int where
  "probeReadHeaderTimeout = 10 * second"

record probe_server =
  probe_address :: string
  probe_routes :: "(string \<times> string) list"
  ReadHeaderTimeout :: int

definition serveHealthProbes :: "'k host \<Rightarrow> string \<Rightarrow> error + probe_server option" where
  \<comment> \<open>the server that is left running, if any\<close>
  "serveHealthProbes H bindAddress =
     (if bindAddress = [] then Inr None
      else case listen_tcp H bindAddress of
        Inl m \<Rightarrow> Inl (ErrMsg (''failed to start probe server: '' @ m))
      | Inr _ \<Rightarrow> Inr (Some \<lparr>probe_address = bindAddress,
          probe_routes = [(''/healthz'', ''ok''), (''/readyz'', ''ok'')],
          ReadHeaderTimeout = probeReadHeaderTimeout\<rparr>))"

section \<open>What the endpoint table holds\<close>

definition nub_first :: "'a list \<Rightarrow> 'a list" where
  \<comment> \<open>without repetitions, in order of first occurrence\<close>
  "nub_first xs = rev (remdups (rev xs))"

definition address_ok :: "string \<Rightarrow> bool" where
  "address_ok raw \<longleftrightarrow> (\<exists>ip. ParseIP (TrimSpace raw) = Some ip \<and> IsGlobalUnicast ip)"

definition canonical_address :: "string \<Rightarrow> string" where
  "canonical_address raw = IP_String (the (ParseIP (TrimSpace raw)))"

definition endpoint_node :: "string \<Rightarrow> string" where
  "endpoint_node e = TrimSpace (fst (Cut e ''=''))"

definition endpoint_addresses :: "string \<Rightarrow> string list" where
  "endpoint_addresses e = SplitChar CHR '','' (fst (snd (Cut e ''='')))"

definition endpoint_ok :: "validators \<Rightarrow> string \<Rightarrow> bool" where
  "endpoint_ok V e \<longleftrightarrow>
     snd (snd (Cut e ''='')) \<and> IsDNS1123Subdomain V (endpoint_node e) = [] \<and>
     IsLabelValue V (endpoint_node e) = [] \<and> list_all address_ok (endpoint_addresses e)"

definition addresses_of :: "string \<Rightarrow> string list \<Rightarrow> string list" where
  \<comment> \<open>every address given for the node, in order\<close>
  "addresses_of n es = concat (map (\<lambda>e. map canonical_address (endpoint_addresses e)) (filter (\<lambda>e. endpoint_node e = n) es))"

lemma nub_first_snoc: "nub_first (xs @ [y]) = (if y \<in> set xs then nub_first xs else nub_first xs @ [y])"
  by (simp add: nub_first_def)

lemma set_nub_first [simp]: "set (nub_first xs) = set xs"
  by (simp add: nub_first_def)

lemma distinct_nub_first [simp]: "distinct (nub_first xs)"
  by (simp add: nub_first_def)

lemma nub_first_distinct: "distinct xs \<Longrightarrow> nub_first xs = xs"
  by (simp add: nub_first_def distinct_remdups_id)

lemma SplitChar_nonempty [simp]: "SplitChar d s \<noteq> []"
  by (cases s) (auto split: list.splits)

lemma parse_addresses_error:
  "(\<exists>e. parse_addresses n raws r = Inl e) \<longleftrightarrow> \<not> list_all address_ok raws"
  by (induction raws arbitrary: r) (auto simp: address_ok_def Let_def split: option.splits)

lemma parse_addresses_get:
  assumes "parse_addresses n raws r = Inr r'"
    and "map_get r n = (if zs = [] then None else Some (nub_first zs))"
  shows "map_get r' = (map_get r)(n := (if zs @ raws = [] then None
           else Some (nub_first (zs @ map canonical_address raws)))) \<and> (map_wf r \<longrightarrow> map_wf r')"
  using assms
proof (induction raws arbitrary: r zs)
  case Nil
  then show ?case by (auto simp: fun_eq_iff)
next
  case (Cons raw raws)
  obtain ip where ip: "ParseIP (TrimSpace raw) = Some ip" "IsGlobalUnicast ip"
    using Cons.prems(1) by (auto simp: Let_def split: option.splits if_splits)
  let ?c = "IP_String ip"
  have can: "canonical_address raw = ?c" by (simp add: canonical_address_def ip)
  define r1 where "r1 = (if ?c \<notin> set zs then map_put n (nub_first zs @ [?c]) r else r)"
  have "nub_first [] = ([] :: string list)" by (simp add: nub_first_def)
  then have next_run: "parse_addresses n raws r1 = Inr r'"
    using Cons.prems ip by (simp add: Let_def r1_def split: if_splits)
  have "map_get r1 n = Some (nub_first (zs @ [?c]))"
    using Cons.prems(2) by (auto simp: r1_def nub_first_snoc split: if_splits)
  with Cons.IH [OF next_run, of "zs @ [?c]"] show ?case
    by (auto simp: r1_def can fun_eq_iff)
qed

lemma parse_endpoints_Cons:
  "parse_endpoints V (e # es) r =
     (if endpoint_ok V e
      then (case parse_addresses (endpoint_node e) (endpoint_addresses e) r of
              Inl x \<Rightarrow> Inl x | Inr r1 \<Rightarrow> parse_endpoints V es r1)
      else Inl (projl (parse_endpoints V (e # es) r)))"
proof (cases "endpoint_ok V e")
  case True
  then show ?thesis
    by (auto simp: endpoint_ok_def endpoint_node_def endpoint_addresses_def Let_def split: prod.splits)
next
  case False
  then show ?thesis
    using parse_addresses_error [of "endpoint_node e" "endpoint_addresses e" r]
    by (auto simp: endpoint_ok_def endpoint_node_def endpoint_addresses_def Let_def split: prod.splits)
qed

lemma addresses_of_Cons:
  "addresses_of n (e # es) =
     (if endpoint_node e = n then map canonical_address (endpoint_addresses e) @ addresses_of n es else addresses_of n es)"
  by (simp add: addresses_of_def)

lemma addresses_of_append: "addresses_of n (es @ fs) = addresses_of n es @ addresses_of n fs"
  by (simp add: addresses_of_def)

definition endpoint_table :: "string list \<Rightarrow> string \<Rightarrow> string list option" where
  "endpoint_table es n = (if addresses_of n es = [] then None else Some (nub_first (addresses_of n es)))"

lemma parse_endpoints_table:
  assumes "map_get r = endpoint_table done" "map_wf r"
  shows "case parse_endpoints V es r of
           Inl _ \<Rightarrow> \<not> list_all (endpoint_ok V) es
         | Inr m \<Rightarrow> list_all (endpoint_ok V) es \<and> map_wf m \<and> map_get m = endpoint_table (done @ es)"
  using assms
proof (induction es arbitrary: r "done")
  case (Cons e es)
  show ?case
  proof (cases "endpoint_ok V e")
    case False
    then show ?thesis by (subst parse_endpoints_Cons) simp
  next
    case True
    let ?n = "endpoint_node e" and ?raws = "endpoint_addresses e"
    have "\<nexists>x. parse_addresses ?n ?raws r = Inl x"
      using True parse_addresses_error [of ?n ?raws r] by (simp add: endpoint_ok_def)
    then obtain r1 where r1: "parse_addresses ?n ?raws r = Inr r1" by (meson sum.exhaust)
    have "?raws \<noteq> []" by (simp add: endpoint_addresses_def)
    with parse_addresses_get [OF r1, of "addresses_of ?n done"] Cons.prems
    have "map_get r1 = endpoint_table (done @ [e])" "map_wf r1"
      by (auto simp: endpoint_table_def addresses_of_append addresses_of_Cons addresses_of_def [of _ "[]"] fun_eq_iff)
    from Cons.IH [OF this] True r1 show ?thesis
      by (subst parse_endpoints_Cons) (simp split: sum.splits)
  qed
qed simp

lemma endpoint_table_Nil: "endpoint_table [] = Map.empty"
  by (simp add: endpoint_table_def addresses_of_def fun_eq_iff)

lemma addresses_of_ok:
  assumes "list_all (endpoint_ok V) es" "a \<in> set (addresses_of n es)"
  obtains ip where "length ip = 16" "IsGlobalUnicast ip" "a = IP_String ip"
proof -
  from assms obtain raw where "address_ok raw" "a = canonical_address raw"
    by (auto simp: addresses_of_def endpoint_ok_def list_all_iff)
  then obtain ip where "ParseIP (TrimSpace raw) = Some ip" "IsGlobalUnicast ip" "a = IP_String ip"
    by (auto simp: address_ok_def canonical_address_def)
  then show thesis using that ParseIP_length by blast
qed

text \<open>C20. \<^verbatim>\<open>parseExternalEndpoints\<close> computes the endpoint table. It fails exactly if some endpoint is
  malformed: no equals sign, a node name that is not a DNS-1123 subdomain or not a label value, or
  an address that does not parse or is not a global unicast address. Otherwise the table has one
  entry per named node, with the addresses given for that node in all its endpoints, in canonical
  form, in order of first occurrence and without repetitions, and nothing else; every listed
  address is the canonical text of a global unicast address that parses back to it.\<close>

theorem parseExternalEndpoints_exact:
  "case parseExternalEndpoints V es of
     Inl _ \<Rightarrow> \<not> list_all (endpoint_ok V) es
   | Inr m \<Rightarrow> list_all (endpoint_ok V) es \<and> map_wf m \<and>
       (\<forall>n. map_get m n = (if addresses_of n es = [] then None else Some (nub_first (addresses_of n es)))) \<and>
       (\<forall>n a. a \<in> set (addresses_of n es) \<longrightarrow>
          (\<exists>ip. ParseIP a = Some ip \<and> IsGlobalUnicast ip \<and> IP_String ip = a))"
proof -
  have "case parseExternalEndpoints V es of
           Inl _ \<Rightarrow> \<not> list_all (endpoint_ok V) es
         | Inr m \<Rightarrow> list_all (endpoint_ok V) es \<and> map_wf m \<and> map_get m = endpoint_table es"
    using parse_endpoints_table [of "[]" "[]" V es] unfolding parseExternalEndpoints_def
    unfolding append_Nil by (simp add: endpoint_table_Nil fun_eq_iff)
  moreover have "\<exists>ip. ParseIP a = Some ip \<and> IsGlobalUnicast ip \<and> IP_String ip = a"
    if "list_all (endpoint_ok V) es" "a \<in> set (addresses_of n es)" for a n
    using that by (rule addresses_of_ok) (use ParseIP_String in blast)
  ultimately show ?thesis by (simp add: endpoint_table_def split: sum.splits)
qed

definition example_endpoints :: "string list" where
  "example_endpoints = [''node1=1.1.1.1,1.1.1.1, 2.2.2.2'', ''node1=2.2.2.2'', ''node2=1.1.1.1'']"

definition example_table :: "string list gomap" where
  "example_table = [(''node1'', [''1.1.1.1'', ''2.2.2.2'']), (''node2'', [''1.1.1.1''])]"

lemma example_endpoints_parse:
  "parseExternalEndpoints documented_validators example_endpoints = Inr example_table"
  by code_simp

theorem parseExternalEndpoints_exact_witness:
  "parseExternalEndpoints documented_validators example_endpoints = Inr example_table \<and>
   nub_first (addresses_of ''node1'' example_endpoints) = [''1.1.1.1'', ''2.2.2.2''] \<and>
   (\<exists>ip. ParseIP ''2.2.2.2'' = Some ip \<and> IsGlobalUnicast ip \<and> IP_String ip = ''2.2.2.2'')"
proof -
  note spec = parseExternalEndpoints_exact [of documented_validators example_endpoints,
      unfolded example_endpoints_parse, simplified]
  have "map_get example_table ''node1'' = Some [''1.1.1.1'', ''2.2.2.2'']"
    by (simp add: example_table_def map_get_def)
  with spec have node1: "nub_first (addresses_of ''node1'' example_endpoints) = [''1.1.1.1'', ''2.2.2.2'']"
    by (metis option.distinct(1) option.inject)
  then have "''2.2.2.2'' \<in> set (addresses_of ''node1'' example_endpoints)"
    by (metis list.set_intros set_nub_first)
  with spec node1 example_endpoints_parse show ?thesis by blast
qed

section \<open>Printing and parsing the table\<close>

definition plain_char :: "char \<Rightarrow> bool" where
  \<comment> \<open>a printable ASCII character other than space\<close>
  "plain_char c \<longleftrightarrow> 0x21 \<le> (of_char c :: nat) \<and> (of_char c :: nat) \<le> 0x7E"

lemma strip_any_None:
  assumes "\<forall>e \<in> set es. e \<noteq> [] \<and> \<not> plain_char (hd e)" "s = [] \<or> plain_char (hd s)"
  shows "strip_any es s = None"
  using assms
proof (induction es)
  case (Cons e es)
  have "take (length e) s \<noteq> e"
  proof
    assume eq: "take (length e) s = e"
    with Cons.prems(1) have "s \<noteq> []" by auto
    moreover from this eq Cons.prems(1) have "hd e = hd s" by (metis hd_take length_greater_0_conv list.set_intros(1))
    ultimately show False using Cons.prems by auto
  qed
  with Cons show ?case by simp
qed simp

lemma trim_left_plain:
  assumes "\<forall>e \<in> set es. e \<noteq> [] \<and> \<not> plain_char (hd e)" "s = [] \<or> plain_char (hd s)"
  shows "trim_left es s = s"
  using strip_any_None [OF assms] by (subst trim_left.simps) simp

lemma space_encodings_plain:
  "\<forall>e \<in> set space_encodings. e \<noteq> [] \<and> \<not> plain_char (hd e)"
  "\<forall>e \<in> set (map rev space_encodings). e \<noteq> [] \<and> \<not> plain_char (hd e)"
  by (simp_all add: space_encodings_def plain_char_def of_char_def)

lemma TrimSpace_plain:
  assumes "list_all plain_char s"
  shows "TrimSpace s = s"
proof -
  have "t = [] \<or> plain_char (hd t)" if "set t = set s" for t
    using assms that by (cases t) (auto simp: list_all_iff)
  then have "trim_left space_encodings s = s" "trim_left (map rev space_encodings) (rev s) = rev s"
    by (rule trim_left_plain [OF space_encodings_plain(1)] trim_left_plain [OF space_encodings_plain(2)], simp)+
  then show ?thesis by (simp add: TrimSpace_def)
qed

lemma plain_chars:
  "dns_char c \<Longrightarrow> plain_char c" "is_hex_char c \<Longrightarrow> plain_char c" "plain_char CHR '':''" "plain_char CHR ''.''"
  by (auto simp: char_class_defs is_hex_char_def plain_char_def of_char_def)

lemma str_index_char: "c \<notin> set s \<Longrightarrow> str_index (s @ c # t) [c] = Some (length s)"
  by (induction s) auto

lemma Cut_char: "c \<notin> set s \<Longrightarrow> Cut (s @ c # t) [c] = (s, t, True)"
  by (simp add: Cut_def str_index_char)

lemma SplitChar_plain: "d \<notin> set s \<Longrightarrow> SplitChar d s = [s]"
  by (induction s) auto

lemma SplitChar_append: "d \<notin> set s \<Longrightarrow> SplitChar d (s @ d # t) = s # SplitChar d t"
  by (induction s) auto

lemma SplitChar_Join: "ws \<noteq> [] \<Longrightarrow> \<forall>w \<in> set ws. d \<notin> set w \<Longrightarrow> SplitChar d (Join ws [d]) = ws"
  by (induction ws) (auto simp: Join_Cons SplitChar_plain SplitChar_append)

definition format_endpoint :: "string \<times> string list \<Rightarrow> string" where
  \<comment> \<open>a table entry in the format of the flag\<close>
  "format_endpoint = (\<lambda>(n, ips). n @ ''='' @ Join ips '','')"

definition listed_ips :: "string list \<Rightarrow> bool" where
  \<comment> \<open>what every entry of the table satisfies\<close>
  "listed_ips ips \<longleftrightarrow> ips \<noteq> [] \<and> distinct ips \<and>
     (\<forall>a \<in> set ips. \<exists>ip. length ip = 16 \<and> IsGlobalUnicast ip \<and> a = IP_String ip)"

lemma IP_String_plain: "list_all plain_char (IP_String ip)" "CHR '','' \<notin> set (IP_String ip)"
proof -
  show "list_all plain_char (IP_String ip)"
    unfolding list_all_iff using IP_String_chars plain_chars by blast
  show "CHR '','' \<notin> set (IP_String ip)"
    using IP_String_chars [of "CHR '',''" ip] by (auto simp: is_hex_char_def)
qed

lemma map_put_new: "map_get m k = None \<Longrightarrow> map_put k v m = m @ [(k, v)]"
  by (induction m) (auto simp: gomap_defs split: if_splits)

lemma map_put_last: "map_get m k = None \<Longrightarrow> map_put k v (m @ [(k, u)]) = m @ [(k, v)]"
  by (induction m) (auto simp: gomap_defs split: if_splits)

lemma parse_addresses_listed:
  assumes "map_get m n = None" "listed_ips (xs @ ips) \<or> ips = []" "distinct xs"
  shows "parse_addresses n ips (if xs = [] then m else m @ [(n, xs)]) =
         Inr (if xs @ ips = [] then m else m @ [(n, xs @ ips)])"
  using assms(2,3)
proof (induction ips arbitrary: xs)
  case (Cons a ips)
  then obtain ip where ip: "length ip = 16" "IsGlobalUnicast ip" "a = IP_String ip" and new: "a \<notin> set xs"
    by (auto simp: listed_ips_def)
  then have parse: "ParseIP (TrimSpace a) = Some ip"
    by (simp add: TrimSpace_plain IP_String_plain ParseIP_String)
  have known: "map_get (m @ [(n, xs)]) n = Some xs" using assms(1) by (simp add: map_get_def map_add_def)
  have put: "map_put n (xs @ [a]) (if xs = [] then m else m @ [(n, xs)]) = m @ [(n, xs @ [a])]"
    using assms(1) by (simp add: map_put_new map_put_last)
  have "parse_addresses n (a # ips) (if xs = [] then m else m @ [(n, xs)]) = parse_addresses n ips (m @ [(n, xs @ [a])])"
    using ip parse new assms(1) known put by (cases "xs = []") (simp_all add: Let_def)
  also have "\<dots> = Inr (m @ [(n, (xs @ [a]) @ ips)])"
    using Cons.IH [of "xs @ [a]"] Cons.prems new by simp
  finally show ?case by simp
qed simp

lemma endpoint_ok_format:
  assumes V: "k8s_validation V" and "listed_ips ips" "dns1123_subdomain n" "label_value n"
  shows "endpoint_ok V (format_endpoint (n, ips))" "endpoint_node (format_endpoint (n, ips)) = n"
    "endpoint_addresses (format_endpoint (n, ips)) = ips"
proof -
  have chars: "\<forall>c \<in> set n. dns_char c \<or> c = CHR ''.''" using dns1123_subdomain_chars [OF assms(3)] by blast
  moreover have "\<not> dns_char CHR ''=''" by (simp add: char_class_defs)
  ultimately have "CHR ''='' \<notin> set n" by fastforce
  then have cut: "Cut (format_endpoint (n, ips)) ''='' = (n, Join ips '','', True)"
    using Cut_char by (simp add: format_endpoint_def)
  have "list_all plain_char n" using chars plain_chars by (auto simp: list_all_iff)
  then show node: "endpoint_node (format_endpoint (n, ips)) = n"
    by (simp add: endpoint_node_def cut TrimSpace_plain)
  have "\<forall>a \<in> set ips. CHR '','' \<notin> set a" using assms(2) IP_String_plain(2) by (auto simp: listed_ips_def)
  then show addrs: "endpoint_addresses (format_endpoint (n, ips)) = ips"
    using assms(2) SplitChar_Join [of ips "CHR '',''"] by (simp add: endpoint_addresses_def cut listed_ips_def)
  have "address_ok a" if "a \<in> set ips" for a
    using assms(2) that TrimSpace_plain [OF IP_String_plain(1)] ParseIP_String
    by (fastforce simp: listed_ips_def address_ok_def)
  then show "endpoint_ok V (format_endpoint (n, ips))"
    using node addrs cut assms(3,4) k8s_validation.dns1123_subdomain_check [OF V] k8s_validation.label_value_check [OF V]
    by (simp add: endpoint_ok_def list_all_iff)
qed

lemma parse_endpoints_format:
  assumes V: "k8s_validation V"
    and "\<forall>(n, ips) \<in> set t. listed_ips ips \<and> dns1123_subdomain n \<and> label_value n" "map_wf (m @ t)"
  shows "parse_endpoints V (map format_endpoint t) m = Inr (m @ t)"
  using assms(2,3)
proof (induction t arbitrary: m)
  case (Cons entry t)
  obtain n ips where entry: "entry = (n, ips)" by force
  with Cons.prems have ok: "listed_ips ips" "dns1123_subdomain n" "label_value n" by auto
  note fmt = endpoint_ok_format [OF V ok]
  have "map_get m n = None"
    using Cons.prems(2) entry by (auto simp: gomap_defs map_of_eq_None_iff)
  then have "parse_addresses n ips m = Inr (m @ [(n, ips)])"
    using parse_addresses_listed [of m n "[]" ips] ok(1) by (simp add: listed_ips_def)
  moreover have "parse_endpoints V (map format_endpoint t) (m @ [(n, ips)]) = Inr ((m @ [(n, ips)]) @ t)"
    using Cons.prems entry by (intro Cons.IH) auto
  ultimately show ?case using fmt entry by (simp only: list.map, subst parse_endpoints_Cons) simp
qed simp

lemma endpoint_table_entries:
  assumes V: "k8s_validation V" and run: "parseExternalEndpoints V es = Inr m" and "(n, ips) \<in> set m"
  shows "listed_ips ips \<and> dns1123_subdomain n \<and> label_value n"
proof -
  have t: "list_all (endpoint_ok V) es" "map_wf m" "map_get m = endpoint_table es"
    using parse_endpoints_table [of "[]" "[]" V es] run
    by (simp_all add: parseExternalEndpoints_def endpoint_table_Nil fun_eq_iff)
  then have "endpoint_table es n = Some ips"
    using assms(3) by (metis gomap_defs(1) gomap_defs(5) map_of_is_SomeI)
  then have ips: "ips = nub_first (addresses_of n es)" "addresses_of n es \<noteq> []"
    by (auto simp: endpoint_table_def split: if_splits)
  then have "listed_ips ips"
    unfolding listed_ips_def using addresses_of_ok [OF t(1)] by (metis distinct_nub_first set_empty set_nub_first)
  moreover obtain e where "e \<in> set es" "endpoint_node e = n" using ips(2) by (auto simp: addresses_of_def)
  then have "endpoint_ok V e" using t(1) by (simp add: list_all_iff)
  ultimately show ?thesis
    using \<open>endpoint_node e = n\<close> k8s_validation.dns1123_subdomain_check [OF V] k8s_validation.label_value_check [OF V]
    by (auto simp: endpoint_ok_def)
qed

text \<open>C24. The endpoint table survives printing: writing each entry in the format of the flag,
  node name, equals sign, comma-separated addresses, and parsing the result gives the same table,
  with the same nodes and addresses in the same order. So the table is in normal form, and no
  address or node name it holds is changed, dropped or rejected when it is given again.\<close>

theorem endpoints_roundtrip:
  assumes V: "k8s_validation V" and run: "parseExternalEndpoints V es = Inr m"
  shows "parseExternalEndpoints V (map format_endpoint m) = Inr m"
proof -
  have "map_wf m"
    using parse_endpoints_table [of "[]" "[]" V es] run
    by (simp add: parseExternalEndpoints_def endpoint_table_Nil fun_eq_iff)
  with parse_endpoints_format [OF V, of m "[]"] endpoint_table_entries [OF assms] show ?thesis
    unfolding parseExternalEndpoints_def by auto
qed

theorem endpoints_roundtrip_witness:
  "k8s_validation documented_validators \<and>
   parseExternalEndpoints documented_validators example_endpoints = Inr example_table \<and>
   map format_endpoint example_table = [''node1=1.1.1.1,2.2.2.2'', ''node2=1.1.1.1''] \<and>
   parseExternalEndpoints documented_validators (map format_endpoint example_table) = Inr example_table"
  using endpoints_roundtrip [OF dv.k8s_validation_axioms example_endpoints_parse]
    example_endpoints_parse dv.k8s_validation_axioms
  by (simp add: example_table_def format_endpoint_def)

end
