(* ===== verification/Workers.thy ===== *)
theory Workers
  imports Controller
begin

text \<open>
  A reconcile worker, one access to shared memory at a time. \<^verbatim>\<open>Run\<close> starts four workers that
  share the aggregator, the push records and the work queue, each behind its own lock; between
  two accesses other workers and the event handlers may run. \<open>worker\<close> is where a worker stands in
  \<^verbatim>\<open>reconcile.go\<close>, with its local variables, and \<open>worker_step\<close> takes it to its next access. Run
  alone, the steps are exactly \<open>processNextItem\<close>. The work queue is client-go's: a record of
  calls, with its documented guarantees as the contract \<open>work_queue\<close>.
\<close>

section \<open>The work queue\<close>

record 'q queue_api =
  wq_Add :: "string \<Rightarrow> 'q \<Rightarrow> 'q"
  wq_Get :: "'q \<Rightarrow> (string \<times> 'q) option"   \<comment> \<open>\<open>None\<close>: no key can be handed out now\<close>
  wq_Done :: "string \<Rightarrow> 'q \<Rightarrow> 'q"
  wq_ShutDown :: "'q \<Rightarrow> 'q"
  wq_ShuttingDown :: "'q \<Rightarrow> bool"

locale work_queue =
  fixes Q :: "'q queue_api"
    and waiting :: "'q \<Rightarrow> string set"   \<comment> \<open>keys still to be handed out\<close>
    and active :: "'q \<Rightarrow> string set"    \<comment> \<open>keys handed out and not done\<close>
  assumes finite_waiting: "finite (waiting q)"
    and get_Some: "wq_Get Q q = Some (k, q') \<Longrightarrow>
          k \<in> waiting q \<and> k \<notin> active q \<and> waiting q' = waiting q - {k} \<and> active q' = insert k (active q) \<and>
          wq_ShuttingDown Q q' = wq_ShuttingDown Q q"
    and get_None: "wq_Get Q q = None \<longleftrightarrow> waiting q \<subseteq> active q"
    and waiting_Add: "waiting (wq_Add Q k q) = (if wq_ShuttingDown Q q then waiting q else insert k (waiting q))"
    and active_Add: "active (wq_Add Q k q) = active q"
    and shut_Add: "wq_ShuttingDown Q (wq_Add Q k q) = wq_ShuttingDown Q q"
    and waiting_Done: "waiting (wq_Done Q k q) = waiting q"
    and active_Done: "active (wq_Done Q k q) = active q - {k}"
    and shut_Done: "wq_ShuttingDown Q (wq_Done Q k q) = wq_ShuttingDown Q q"
    and waiting_ShutDown: "waiting (wq_ShutDown Q q) = waiting q"
    and active_ShutDown: "active (wq_ShutDown Q q) = active q"
    and shut_ShutDown: "wq_ShuttingDown Q (wq_ShutDown Q q)"

fun apply_call :: "'q queue_api \<Rightarrow> queue_call \<Rightarrow> 'q \<Rightarrow> 'q" where
  \<comment> \<open>the immediate effect of a call; delayed additions arrive later\<close>
  "apply_call Q (QAdd k) q = wq_Add Q k q"
| "apply_call Q (QDone k) q = wq_Done Q k q"
| "apply_call Q QShutDown q = wq_ShutDown Q q"
| "apply_call Q _ q = q"

definition apply_calls :: "'q queue_api \<Rightarrow> queue_call list \<Rightarrow> 'q \<Rightarrow> 'q" where
  "apply_calls Q calls q = fold (apply_call Q) calls q"

definition delayed_keys :: "queue_call list \<Rightarrow> string set" where
  "delayed_keys calls = {k. (\<exists>d. QAddAfter k d \<in> set calls) \<or> QAddRateLimited k \<in> set calls}"

definition added_keys :: "queue_call list \<Rightarrow> string set" where
  "added_keys calls = {k. QAdd k \<in> set calls}"

definition done_keys :: "queue_call list \<Rightarrow> string set" where
  "done_keys calls = {k. QDone k \<in> set calls}"

context work_queue
begin

lemma apply_calls_effect:
  assumes "QShutDown \<notin> set calls"
  shows "waiting (apply_calls Q calls q) =
           (if wq_ShuttingDown Q q then waiting q else waiting q \<union> added_keys calls)"
    and "active (apply_calls Q calls q) = active q - done_keys calls"
    and "wq_ShuttingDown Q (apply_calls Q calls q) = wq_ShuttingDown Q q"
proof -
  have "waiting (apply_calls Q calls q) = (if wq_ShuttingDown Q q then waiting q else waiting q \<union> added_keys calls) \<and>
    active (apply_calls Q calls q) = active q - done_keys calls \<and>
    wq_ShuttingDown Q (apply_calls Q calls q) = wq_ShuttingDown Q q"
    using assms
  proof (induction calls arbitrary: q)
    case Nil
    show ?case by (simp add: apply_calls_def added_keys_def done_keys_def)
  next
    case (Cons x calls)
    then have IH: "waiting (apply_calls Q calls q) = (if wq_ShuttingDown Q q then waiting q else waiting q \<union> added_keys calls) \<and>
      active (apply_calls Q calls q) = active q - done_keys calls \<and>
      wq_ShuttingDown Q (apply_calls Q calls q) = wq_ShuttingDown Q q" for q by simp
    have "apply_calls Q (x # calls) q = apply_calls Q calls (apply_call Q x q)" by (simp add: apply_calls_def)
    with IH [of "apply_call Q x q"] Cons.prems show ?case
      by (cases x) (auto simp: added_keys_def done_keys_def waiting_Add active_Add shut_Add waiting_Done active_Done shut_Done)
  qed
  then show "waiting (apply_calls Q calls q) =
           (if wq_ShuttingDown Q q then waiting q else waiting q \<union> added_keys calls)"
    "active (apply_calls Q calls q) = active q - done_keys calls"
    "wq_ShuttingDown Q (apply_calls Q calls q) = wq_ShuttingDown Q q"
    by blast+
qed

end

text \<open>An executable queue that meets the contract: the keys to hand out, oldest first, the keys
  being processed, and whether the queue is shutting down.\<close>

record list_queue =
  lq_waiting :: "string list"
  lq_active :: "string list"
  lq_shut :: bool

definition lq_Add :: "string \<Rightarrow> list_queue \<Rightarrow> list_queue" where
  "lq_Add k q = (if lq_shut q \<or> k \<in> set (lq_waiting q) then q else q\<lparr>lq_waiting := lq_waiting q @ [k]\<rparr>)"

definition lq_Get :: "list_queue \<Rightarrow> (string \<times> list_queue) option" where
  "lq_Get q = (case List.find (\<lambda>k. k \<notin> set (lq_active q)) (lq_waiting q) of
      None \<Rightarrow> None
    | Some k \<Rightarrow> Some (k, q\<lparr>lq_waiting := removeAll k (lq_waiting q), lq_active := k # lq_active q\<rparr>))"

definition list_queue_api :: "list_queue queue_api" where
  "list_queue_api = \<lparr>wq_Add = lq_Add, wq_Get = lq_Get,
     wq_Done = (\<lambda>k q. q\<lparr>lq_active := removeAll k (lq_active q)\<rparr>),
     wq_ShutDown = (\<lambda>q. q\<lparr>lq_shut := True\<rparr>), wq_ShuttingDown = lq_shut\<rparr>"

interpretation listq: work_queue list_queue_api "\<lambda>q. set (lq_waiting q)" "\<lambda>q. set (lq_active q)"
  by unfold_locales
    (auto simp: list_queue_api_def lq_Add_def lq_Get_def find_None_iff find_Some_iff split: option.splits dest: nth_mem)

section \<open>Where a worker stands\<close>

datatype worker =
    Idle
  | Picked string
  | Publishing string
  | Tearing string
  | Clearing string
  | Deploying string node
  | Merging string caddy_pod
  | Checking string caddy_pod snapshot
  | Pushing string caddy_pod snapshot
  | Recording string caddy_pod snapshot
  | Accepting string snapshot
  | Finishing string "error option"
  | Exited

definition worker_step ::
  "'s env \<Rightarrow> worker \<Rightarrow> 's controller \<Rightarrow> worker \<times> 's controller \<times> string set" where
  \<comment> \<open>the next position, the shared state, and the Caddyfile that was loaded, if any\<close>
  "worker_step E wk c =
     (case wk of
        Idle \<Rightarrow> (Idle, c, {})
      | Exited \<Rightarrow> (Exited, c, {})
      | Picked key \<Rightarrow>
          (if key = mirrorKey then
             (if accepted (agg c) = []
              then Finishing key (Some (ErrMsg (''boot ConfigMap '' @ mirrorName (agg c) @ '' has not been initialized'')))
              else Publishing (accepted (agg c)))
           else (case nodes_get (caches E) key of
                   Inl e \<Rightarrow> if e \<noteq> NotFound then Finishing key (Some (ErrApi [] e)) else Tearing key
                 | Inr nd \<Rightarrow> if \<not> isManagedNode c nd then Tearing key else Deploying key nd), c, {})
      | Publishing text \<Rightarrow>
          (case on_world (publishMirror (kube E) (agg c) text) c of
             (r, c1) \<Rightarrow> (Finishing mirrorKey r, c1, {}))
      | Tearing key \<Rightarrow>
          (case on_world (Teardown (kube E) (checks E) (Deploy (cfg c)) key) c of
             (Some e, c1) \<Rightarrow> (Finishing key (Some e), c1, {})
           | (None, c1) \<Rightarrow> (Clearing key, c1, {}))
      | Clearing key \<Rightarrow> (Finishing key None, clearPushState key c, {})
      | Deploying key nd \<Rightarrow>
          (case deployNode E nd c of
             (Inl e, c1) \<Rightarrow> (Finishing key (Some e), c1, {})
           | (Inr p, c1) \<Rightarrow> (Merging key p, c1, {}))
      | Merging key p \<Rightarrow>
          (case CurrentMerged (maxSecretSize E) (agg c) of
             Inl _ \<Rightarrow> Finishing key None
           | Inr snap \<Rightarrow> Checking key p snap, c, {})
      | Checking key p snap \<Rightarrow>
          (if pushUpToDate key (configDigest (Caddyfile snap)) (cp_ContainerID p) c then Accepting key snap
           else if cp_IP p = [] \<or> cp_ContainerID p = [] then Finishing key None
           else Pushing key p snap, c, {})
      | Pushing key p snap \<Rightarrow>
          (case on_world (pushFn E (cfg c) (cp_IP p) (Caddyfile snap)) c of
             (Some e, c1) \<Rightarrow> (Finishing key (if is_config_rejected e then None else Some e), c1, {})
           | (None, c1) \<Rightarrow> (Recording key p snap, c1, {Caddyfile snap}))
      | Recording key p snap \<Rightarrow>
          (Accepting key snap, recordPush key (configDigest (Caddyfile snap)) (cp_ContainerID p) c, {})
      | Accepting key snap \<Rightarrow> (Finishing key None, accept_snapshot snap c, {})
      | Finishing key r \<Rightarrow>
          (Idle, enqueue (QDone key) (enqueue (if r = None then QForget key else QAddRateLimited key) c), {}))"

fun worker_key :: "worker \<Rightarrow> string option" where
  \<comment> \<open>the key the worker has not marked done yet\<close>
  "worker_key Idle = None"
| "worker_key Exited = None"
| "worker_key (Picked k) = Some k"
| "worker_key (Publishing t) = Some mirrorKey"
| "worker_key (Tearing k) = Some k"
| "worker_key (Clearing k) = Some k"
| "worker_key (Deploying k n) = Some k"
| "worker_key (Merging k p) = Some k"
| "worker_key (Checking k p s) = Some k"
| "worker_key (Pushing k p s) = Some k"
| "worker_key (Recording k p s) = Some k"
| "worker_key (Accepting k s) = Some k"
| "worker_key (Finishing k r) = Some k"

fun worker_left :: "worker \<Rightarrow> nat" where
  \<comment> \<open>a bound on the steps to the end of the key\<close>
  "worker_left Idle = 1"
| "worker_left Exited = 0"
| "worker_left (Picked k) = 9"
| "worker_left (Publishing t) = 3"
| "worker_left (Tearing k) = 4"
| "worker_left (Clearing k) = 3"
| "worker_left (Deploying k n) = 8"
| "worker_left (Merging k p) = 7"
| "worker_left (Checking k p s) = 6"
| "worker_left (Pushing k p s) = 5"
| "worker_left (Recording k p s) = 4"
| "worker_left (Accepting k s) = 3"
| "worker_left (Finishing k r) = 2"

section \<open>A worker alone\<close>

fun worker_run :: "'s env \<Rightarrow> nat \<Rightarrow> worker \<times> 's controller \<times> string set \<Rightarrow> worker \<times> 's controller \<times> string set" where
  "worker_run E 0 S = S"
| "worker_run E (Suc n) (wk, c, L) = (case worker_step E wk c of (wk1, c1, L1) \<Rightarrow> worker_run E n (wk1, c1, L \<union> L1))"

lemma worker_run_Idle: "worker_run E n (Idle, c, L) = (Idle, c, L)"
  by (induction n arbitrary: L) (simp_all add: worker_step_def)

definition finish :: "string \<Rightarrow> error option \<Rightarrow> 's controller \<Rightarrow> 's controller" where
  "finish key r c = enqueue (QDone key) (enqueue (if r = None then QForget key else QAddRateLimited key) c)"

lemma run_Finishing: "worker_run E (Suc n) (Finishing key r, c, L) = (Idle, finish key r c, L)"
  by (simp add: worker_step_def worker_run_Idle finish_def)

lemma run_Accepting: "worker_run E (Suc (Suc n)) (Accepting key s, c, L) = (Idle, finish key None (accept_snapshot s c), L)"
  by (subst worker_run.simps) (simp add: worker_step_def run_Finishing del: worker_run.simps)

lemma run_Checking:
  assumes "ensureLoaded E key p s c = (x, c')"
  shows "\<exists>L'. worker_run E (Suc (Suc (Suc (Suc (Suc n))))) (Checking key p s, c, L) =
     (Idle, (case x of Inl e \<Rightarrow> finish key (Some e) c'
                     | Inr isLoaded \<Rightarrow> finish key None (if isLoaded then accept_snapshot s c' else c')), L')"
proof (cases "pushUpToDate key (configDigest (Caddyfile s)) (cp_ContainerID p) c")
  case True
  with assms show ?thesis
    by (subst worker_run.simps) (auto simp: worker_step_def ensureLoaded_def run_Accepting simp del: worker_run.simps)
next
  case stale: False
  show ?thesis
  proof (cases "cp_IP p = [] \<or> cp_ContainerID p = []")
    case True
    with stale assms show ?thesis
      by (subst worker_run.simps) (auto simp: worker_step_def ensureLoaded_def run_Finishing simp del: worker_run.simps)
  next
    case False
    obtain r c1 where push: "on_world (pushFn E (cfg c) (cp_IP p) (Caddyfile s)) c = (r, c1)" by fastforce
    show ?thesis
    proof (cases r)
      case None
      with push stale False assms show ?thesis
        by (subst worker_run.simps, simp add: worker_step_def ensureLoaded_def del: worker_run.simps,
            subst worker_run.simps, simp add: worker_step_def del: worker_run.simps,
            subst worker_run.simps, simp add: worker_step_def del: worker_run.simps)
          (auto simp: run_Accepting simp del: worker_run.simps)
    next
      case (Some e)
      with push stale False assms show ?thesis
        by (subst worker_run.simps, simp add: worker_step_def ensureLoaded_def del: worker_run.simps,
            subst worker_run.simps, simp add: worker_step_def del: worker_run.simps)
          (auto simp: run_Finishing split: if_splits simp del: worker_run.simps)
    qed
  qed
qed

lemma run_Merging:
  shows "\<exists>L'. worker_run E (Suc (Suc (Suc (Suc (Suc (Suc n)))))) (Merging key p, c, L) =
     (Idle, (case CurrentMerged (maxSecretSize E) (agg c) of
               Inl _ \<Rightarrow> finish key None c
             | Inr s \<Rightarrow> (case ensureLoaded E key p s c of
                  (Inl e, c1) \<Rightarrow> finish key (Some e) c1
                | (Inr isLoaded, c1) \<Rightarrow> finish key None (if isLoaded then accept_snapshot s c1 else c1))), L')"
proof (cases "CurrentMerged (maxSecretSize E) (agg c)")
  case (Inl e)
  then show ?thesis
    by (subst worker_run.simps) (auto simp: worker_step_def run_Finishing simp del: worker_run.simps)
next
  case (Inr s)
  obtain x c1 where "ensureLoaded E key p s c = (x, c1)" by fastforce
  with run_Checking [OF this, of n L] Inr show ?thesis
    by (subst worker_run.simps) (auto simp: worker_step_def split: sum.splits simp del: worker_run.simps)
qed

lemma run_Tearing:
  assumes "teardownNode E key c = (r, c')"
  shows "worker_run E (Suc (Suc (Suc n))) (Tearing key, c, L) = (Idle, finish key r c', L)"
proof -
  obtain e c1 where t: "on_world (Teardown (kube E) (checks E) (Deploy (cfg c)) key) c = (e, c1)" by fastforce
  show ?thesis
  proof (cases e)
    case None
    with t assms show ?thesis
      by (subst worker_run.simps, simp add: worker_step_def teardownNode_def del: worker_run.simps,
          subst worker_run.simps, simp add: worker_step_def del: worker_run.simps)
        (auto simp: run_Finishing simp del: worker_run.simps)
  next
    case (Some x)
    with t assms show ?thesis
      by (subst worker_run.simps, simp add: worker_step_def teardownNode_def del: worker_run.simps)
        (auto simp: run_Finishing simp del: worker_run.simps)
  qed
qed

lemma run_Publishing:
  "worker_run E (Suc (Suc n)) (Publishing t, c, L) =
     (Idle, (case on_world (publishMirror (kube E) (agg c) t) c of (r, c1) \<Rightarrow> finish mirrorKey r c1), L)"
  by (subst worker_run.simps) (simp add: worker_step_def run_Finishing split: prod.split del: worker_run.simps)

lemma processNextItem_finish:
  "processNextItem E (Some key) c = (case reconcile E key c of (r, c1) \<Rightarrow> (True, finish key r c1))"
  by (simp add: processNextItem_def finish_def split: prod.split option.split)

lemma on_world_const: "on_world (\<lambda>w. (r, w)) c = (r, c)"
  by (simp add: on_world_def)

lemma run_Picked_mirror:
  "\<exists>L. worker_run E 8 (Picked mirrorKey, c, {}) = (Idle, snd (processNextItem E (Some mirrorKey) c), L)"
proof (cases "accepted (agg c) = []")
  case True
  then show ?thesis
    unfolding numeral_eq_Suc pred_numeral_simps BitM.simps
    by (subst worker_run.simps)
      (simp add: worker_step_def run_Finishing processNextItem_finish reconcile_def PublishMirror_def
        on_world_def del: worker_run.simps)
next
  case False
  obtain r c1 where "on_world (publishMirror (kube E) (agg c) (accepted (agg c))) c = (r, c1)" by fastforce
  with False show ?thesis
    unfolding numeral_eq_Suc pred_numeral_simps BitM.simps
    by (subst worker_run.simps)
      (simp add: worker_step_def run_Publishing processNextItem_finish reconcile_def PublishMirror_def
        on_world_def split: prod.splits del: worker_run.simps)
qed

lemma run_Deploying:
  "\<exists>L'. worker_run E (Suc (Suc (Suc (Suc (Suc (Suc (Suc n))))))) (Deploying key nd, c, L) =
     (Idle, (case deployNode E nd c of
               (Inl e, c1) \<Rightarrow> finish key (Some e) c1
             | (Inr p, c1) \<Rightarrow> (case CurrentMerged (maxSecretSize E) (agg c1) of
                 Inl _ \<Rightarrow> finish key None c1
               | Inr s \<Rightarrow> (case ensureLoaded E key p s c1 of
                    (Inl e, c2) \<Rightarrow> finish key (Some e) c2
                  | (Inr isLoaded, c2) \<Rightarrow> finish key None (if isLoaded then accept_snapshot s c2 else c2)))), L')"
proof -
  obtain d c1 where d: "deployNode E nd c = (d, c1)" by fastforce
  show ?thesis
  proof (cases d)
    case (Inl e)
    with d show ?thesis
      by (subst worker_run.simps) (simp add: worker_step_def run_Finishing del: worker_run.simps)
  next
    case (Inr p)
    with d run_Merging [of E n key p c1 L] show ?thesis
      by (subst worker_run.simps) (simp add: worker_step_def del: worker_run.simps)
  qed
qed

lemma run_Picked_node:
  assumes "key \<noteq> mirrorKey"
  shows "\<exists>L. worker_run E 8 (Picked key, c, {}) =
           (Idle, (case reconcileNode E key c of (r, c1) \<Rightarrow> finish key r c1), L)"
proof -
  have eight: "worker_run E 8 (Picked key, c, {}) =
      (case worker_step E (Picked key) c of (wk1, c1, L1) \<Rightarrow>
         worker_run E (Suc (Suc (Suc (Suc (Suc (Suc (Suc 0))))))) (wk1, c1, L1))"
    unfolding numeral_eq_Suc pred_numeral_simps BitM.simps by (subst worker_run.simps) simp
  obtain r c' where t: "teardownNode E key c = (r, c')" by fastforce
  show ?thesis
  proof (cases "nodes_get (caches E) key")
    case (Inl e)
    with t assms show ?thesis
      unfolding eight by (simp add: worker_step_def reconcileNode_def run_Finishing run_Tearing del: worker_run.simps)
  next
    case (Inr nd)
    show ?thesis
    proof (cases "isManagedNode c nd")
      case False
      with Inr t assms show ?thesis
        unfolding eight by (simp add: worker_step_def reconcileNode_def run_Tearing del: worker_run.simps)
    next
      case True
      then have "(case reconcileNode E key c of (r, c1) \<Rightarrow> finish key r c1) =
          (case deployNode E nd c of
               (Inl e, c1) \<Rightarrow> finish key (Some e) c1
             | (Inr p, c1) \<Rightarrow> (case CurrentMerged (maxSecretSize E) (agg c1) of
                 Inl _ \<Rightarrow> finish key None c1
               | Inr s \<Rightarrow> (case ensureLoaded E key p s c1 of
                    (Inl e, c2) \<Rightarrow> finish key (Some e) c2
                  | (Inr isLoaded, c2) \<Rightarrow> finish key None (if isLoaded then accept_snapshot s c2 else c2))))"
        using Inr by (simp add: reconcileNode_def split: prod.split sum.split)
      with True Inr assms run_Deploying [of E 0 key nd c "{}"] show ?thesis
        unfolding eight by (simp add: worker_step_def del: worker_run.simps)
    qed
  qed
qed

text \<open>A worker that is not disturbed does exactly one \<^verbatim>\<open>processNextItem\<close>: from the key it was handed,
  at most eight accesses to shared memory lead it back to waiting for a key, with the controller
  in the state that \<^verbatim>\<open>processNextItem\<close> leaves, whatever the outcome of the calls in between. So the
  positions of a worker split the atomic operation and add nothing to it.\<close>

lemma worker_refines_processNextItem:
  "\<exists>L. worker_run E 8 (Picked key, c, {}) = (Idle, snd (processNextItem E (Some key) c), L)"
proof (cases "key = mirrorKey")
  case True
  with run_Picked_mirror show ?thesis by simp
next
  case False
  with run_Picked_node [OF this, of E c] show ?thesis
    by (simp add: processNextItem_finish reconcile_def split: prod.splits)
qed

end
