(* ===== verification/System.thy ===== *)
theory System
  imports Workers
begin

text \<open>
  The running controller: \<^verbatim>\<open>Run\<close> of \<^verbatim>\<open>pkg/controller/controller.go\<close> with its goroutines. A \<open>pool\<close>
  is the controller's shared memory, the work queue, the position of every worker, whether the
  resync goroutine lives, whether the context is done and where \<^verbatim>\<open>Run\<close> itself stands. \<open>move\<close> are
  the steps of \<^verbatim>\<open>Run\<close> and the workers, \<open>disturb\<close> those of everything else: informers deliver events,
  the resync ticker fires, delayed keys arrive, the outside (the API server, Caddy, the caches, the
  clock) changes and the context ends. The environment of a step is arbitrary within the predicate \<open>Ok\<close>.

  The aggregator releases its lock before it calls \<^verbatim>\<open>enqueueManagedNodes\<close>, which lists the nodes and
  then adds them one by one. So an update of the aggregator is one step, and what its goroutine has yet
  to do of the callback is kept in \<open>calling\<close> and done in later steps, between which anything may happen;
  the same holds for a resync, which clears the push records first. Each goroutine makes one such call
  at a time: client-go calls the handlers of one registration one after another.

  Three fields only record history: \<open>loaded\<close>, the Caddyfiles that some Caddy has loaded; \<open>booted\<close>, the
  API server when \<^verbatim>\<open>Run\<close> read the boot ConfigMap; and \<open>seen\<close>, the revision of the merge that was
  last read for a node.
\<close>

section \<open>Events\<close>

inductive event :: "'s controller \<Rightarrow> 's controller \<Rightarrow> bool" where
  \<comment> \<open>handlers that add at most one key\<close>
  node_added: "event c (node_AddFunc obj c)"
| node_updated: "event c (node_UpdateFunc old new c)"
| node_deleted: "event c (node_DeleteFunc obj c)"
| config_map_deleted: "event c (configMap_DeleteFunc obj c)"
| managed_event: "event c (managedObject_enqueue obj c)"

datatype goroutine = ConfigMapEvents | ExternalEvents | Resync

datatype callback =
    ListNodes                \<comment> \<open>\<open>enqueueManagedNodes\<close> has been called\<close>
  | AddKeys "string list"    \<comment> \<open>keys that are still to be added to the queue\<close>

inductive delivers :: "goroutine \<Rightarrow> 's controller \<Rightarrow> handler_act \<Rightarrow> bool" where
  \<comment> \<open>what the goroutine of an informer does for a ConfigMap event\<close>
  config_map_event: "delivers ConfigMapEvents c (configMap_act obj c)"
| external_event: "delivers ExternalEvents c (upsert_act obj c)"
| external_deleted: "delivers ExternalEvents c (removal_act obj)"

definition to_add :: "string list \<Rightarrow> callback option" where
  "to_add keys = (if keys = [] then None else Some (AddKeys keys))"

definition begin_act :: "handler_act \<Rightarrow> aggregator \<Rightarrow> callback option \<times> aggregator" where
  \<comment> \<open>up to the point where the handler has released the aggregator's lock\<close>
  "begin_act act a =
     (case act of
        Skip \<Rightarrow> (None, a)
      | AddKey key \<Rightarrow> (to_add [key], a)
      | Change op \<Rightarrow> (let (callback, a') = op a in (if callback then Some ListNodes else None, a')))"

definition list_managed :: "'s env \<Rightarrow> (labels \<Rightarrow> bool) \<Rightarrow> callback option" where
  \<comment> \<open>the first half of \<open>enqueueManagedNodes\<close>\<close>
  "list_managed E sel =
     (case nodes_list (caches E) sel of Inl _ \<Rightarrow> None | Inr nodes \<Rightarrow> to_add (map Name nodes))"

section \<open>The process\<close>

datatype run_phase = Starting | Syncing | Working | Draining | Returned "error option"

record ('s, 'q) pool =
  ctl :: "'s controller"
  wqueue :: 'q
  later :: "string set"
  workers :: "worker list"
  ticking :: bool
  calling :: "goroutine \<Rightarrow> callback option"
  stopped :: bool
  phase :: run_phase
  loaded :: "string set"
  booted :: "'s option"
  seen :: "string \<Rightarrow> 64 word option"

definition submit :: "'q queue_api \<Rightarrow> 's controller \<Rightarrow> ('s, 'q) pool \<Rightarrow> ('s, 'q) pool" where
  \<comment> \<open>the controller after an operation, its calls on the queue carried out\<close>
  "submit Q c S = S\<lparr>ctl := c\<lparr>queue := []\<rparr>, wqueue := apply_calls Q (queue c) (wqueue S),
     later := later S \<union> delayed_keys (queue c)\<rparr>"

definition read_merge :: "worker \<Rightarrow> aggregator \<Rightarrow> (string \<Rightarrow> 64 word option) \<Rightarrow> string \<Rightarrow> 64 word option" where
  "read_merge wk a sn = (case wk of Merging key p \<Rightarrow> sn(key := Some (revision a)) | _ \<Rightarrow> sn)"

inductive move :: "'q queue_api \<Rightarrow> ('s env \<Rightarrow> bool) \<Rightarrow> ('s, 'q) pool \<Rightarrow> ('s, 'q) pool \<Rightarrow> bool"
  for Q Ok where
  init: "phase S = Starting \<Longrightarrow> Ok E \<Longrightarrow>
    InitializeMirror (kube E) (agg (ctl S)) (world (ctl S)) = (None, a, w) \<Longrightarrow>
    move Q Ok S (S\<lparr>phase := Syncing, ctl := (ctl S)\<lparr>agg := a, world := w\<rparr>, booted := Some (world (ctl S))\<rparr>)"
| init_fail: "phase S = Starting \<Longrightarrow> Ok E \<Longrightarrow>
    InitializeMirror (kube E) (agg (ctl S)) (world (ctl S)) = (Some e, a, w) \<Longrightarrow>
    move Q Ok S (S\<lparr>phase := Returned (Some e), ctl := (ctl S)\<lparr>agg := a, world := w\<rparr>,
      wqueue := wq_ShutDown Q (wqueue S)\<rparr>)"
| synced: "phase S = Syncing \<Longrightarrow>
    move Q Ok S (S\<lparr>phase := Working, workers := replicate workerCount Idle,
      ticking := 0 < ConfigResyncInterval (cfg (ctl S))\<rparr>)"
| unsynced: "phase S = Syncing \<Longrightarrow> stopped S \<Longrightarrow>
    move Q Ok S (S\<lparr>phase := Returned (Some (ErrCanceled ''shutting down before informer caches synced'')),
      wqueue := wq_ShutDown Q (wqueue S)\<rparr>)"
| get: "i < length (workers S) \<Longrightarrow> workers S ! i = Idle \<Longrightarrow> wq_Get Q (wqueue S) = Some (key, q) \<Longrightarrow>
    move Q Ok S (S\<lparr>workers := (workers S)[i := Picked key], wqueue := q\<rparr>)"
| work: "i < length (workers S) \<Longrightarrow> workers S ! i \<notin> {Idle, Exited} \<Longrightarrow> Ok E \<Longrightarrow>
    worker_step E (workers S ! i) (ctl S) = (wk, c, L) \<Longrightarrow>
    move Q Ok S (submit Q c (S\<lparr>workers := (workers S)[i := wk], loaded := loaded S \<union> L,
      seen := read_merge (workers S ! i) (agg (ctl S)) (seen S)\<rparr>))"
| quit: "i < length (workers S) \<Longrightarrow> workers S ! i = Idle \<Longrightarrow> wq_ShuttingDown Q (wqueue S) \<Longrightarrow>
    wq_Get Q (wqueue S) = None \<Longrightarrow> move Q Ok S (S\<lparr>workers := (workers S)[i := Exited]\<rparr>)"
| drain: "phase S = Working \<Longrightarrow> stopped S \<Longrightarrow>
    move Q Ok S (S\<lparr>phase := Draining, wqueue := wq_ShutDown Q (wqueue S)\<rparr>)"
| tick_stop: "stopped S \<Longrightarrow> ticking S \<Longrightarrow> calling S Resync = None \<or> wq_ShuttingDown Q (wqueue S) \<Longrightarrow>
    move Q Ok S (S\<lparr>ticking := False, calling := (calling S)(Resync := None)\<rparr>)"
    \<comment> \<open>a round under way when the queue is shut down has nothing left to do: adding has no effect any more\<close>
| wait: "phase S = Draining \<Longrightarrow> \<forall>wk \<in> set (workers S). wk = Exited \<Longrightarrow> \<not> ticking S \<Longrightarrow>
    move Q Ok S (S\<lparr>phase := Returned None\<rparr>)"

inductive disturb :: "'q queue_api \<Rightarrow> ('s env \<Rightarrow> bool) \<Rightarrow> ('s, 'q) pool \<Rightarrow> ('s, 'q) pool \<Rightarrow> bool"
  for Q Ok where
  informer: "phase S \<noteq> Starting \<Longrightarrow> event (ctl S) c \<Longrightarrow> disturb Q Ok S (submit Q c S)"
| handle: "phase S \<noteq> Starting \<Longrightarrow> calling S g = None \<Longrightarrow> delivers g (ctl S) act \<Longrightarrow>
    begin_act act (agg (ctl S)) = (cb, a) \<Longrightarrow>
    disturb Q Ok S (S\<lparr>ctl := (ctl S)\<lparr>agg := a\<rparr>, calling := (calling S)(g := cb)\<rparr>)"
| resync: "ticking S \<Longrightarrow> calling S Resync = None \<Longrightarrow>
    disturb Q Ok S (S\<lparr>ctl := (ctl S)\<lparr>pushState := []\<rparr>, calling := (calling S)(Resync := Some ListNodes)\<rparr>)"
| list_nodes: "calling S g = Some ListNodes \<Longrightarrow> Ok E \<Longrightarrow>
    disturb Q Ok S (S\<lparr>calling := (calling S)(g := list_managed E (nodeSelector (ctl S)))\<rparr>)"
| add_key: "calling S g = Some (AddKeys (key # keys)) \<Longrightarrow>
    disturb Q Ok S (S\<lparr>wqueue := wq_Add Q key (wqueue S), calling := (calling S)(g := to_add keys)\<rparr>)"
| delayed_add: "key \<in> later S \<Longrightarrow>
    disturb Q Ok S (S\<lparr>wqueue := wq_Add Q key (wqueue S), later := later S - {key}\<rparr>)"
| outside: "disturb Q Ok S (S\<lparr>ctl := (ctl S)\<lparr>world := w\<rparr>\<rparr>)"
| stop: "disturb Q Ok S (S\<lparr>stopped := True\<rparr>)"

definition pool_step :: "'q queue_api \<Rightarrow> ('s env \<Rightarrow> bool) \<Rightarrow> ('s, 'q) pool \<Rightarrow> ('s, 'q) pool \<Rightarrow> bool" where
  "pool_step Q Ok S S' \<longleftrightarrow> move Q Ok S S' \<or> disturb Q Ok S S'"

definition Run_pool :: "'s controller \<Rightarrow> 'q \<Rightarrow> ('s, 'q) pool" where
  \<comment> \<open>\<open>Run\<close> is called on a controller with the queue that \<open>NewController\<close> made\<close>
  "Run_pool c q = \<lparr>ctl = c\<lparr>queue := []\<rparr>, wqueue = q, later = {}, workers = [], ticking = False,
     calling = (\<lambda>_. None), stopped = False, phase = Starting, loaded = {}, booted = None, seen = (\<lambda>_. None)\<rparr>"

lemma submit_simps [simp]:
  "ctl (submit Q c S) = c\<lparr>queue := []\<rparr>" "wqueue (submit Q c S) = apply_calls Q (queue c) (wqueue S)"
  "later (submit Q c S) = later S \<union> delayed_keys (queue c)" "workers (submit Q c S) = workers S"
  "ticking (submit Q c S) = ticking S" "calling (submit Q c S) = calling S"
  "stopped (submit Q c S) = stopped S" "phase (submit Q c S) = phase S"
  "loaded (submit Q c S) = loaded S" "booted (submit Q c S) = booted S" "seen (submit Q c S) = seen S"
  by (simp_all add: submit_def)

lemma move_pool: "move Q Ok S S' \<Longrightarrow> pool_step Q Ok S S'"
  by (simp add: pool_step_def)

lemma disturb_pool: "disturb Q Ok S S' \<Longrightarrow> pool_step Q Ok S S'"
  by (simp add: pool_step_def)

section \<open>Undisturbed handlers\<close>

text \<open>
  With no other step in between, the steps of a handler or a resync add up to the handler and to
  \<open>forceConfigResync\<close> as single operations.
\<close>

lemma add_keys_run:
  "calling S g = to_add keys \<Longrightarrow>
   (disturb Q Ok)\<^sup>*\<^sup>* S (S\<lparr>wqueue := fold (wq_Add Q) keys (wqueue S), calling := (calling S)(g := None)\<rparr>)"
proof (induction keys arbitrary: S)
  case Nil
  then have "(calling S)(g := None) = calling S" by (simp add: to_add_def fun_upd_idem)
  then show ?case by simp
next
  case (Cons key keys)
  let ?S = "S\<lparr>wqueue := wq_Add Q key (wqueue S), calling := (calling S)(g := to_add keys)\<rparr>"
  have "disturb Q Ok S ?S" using Cons.prems by (intro disturb.add_key) (simp add: to_add_def)
  moreover have "(disturb Q Ok)\<^sup>*\<^sup>* ?S (?S\<lparr>wqueue := fold (wq_Add Q) keys (wqueue ?S), calling := (calling ?S)(g := None)\<rparr>)"
    by (rule Cons.IH) simp
  moreover have "?S\<lparr>wqueue := fold (wq_Add Q) keys (wqueue ?S), calling := (calling ?S)(g := None)\<rparr> =
      S\<lparr>wqueue := fold (wq_Add Q) (key # keys) (wqueue S), calling := (calling S)(g := None)\<rparr>"
    by (intro pool.equality) simp_all
  ultimately show ?case by (metis converse_rtranclp_into_rtranclp)
qed

lemma no_calls: "queue c = [] \<Longrightarrow> c\<lparr>queue := []\<rparr> = c"
  by (cases c) simp

lemma submit_adds:
  assumes "queue c = map QAdd keys"
  shows "submit Q c S = S\<lparr>ctl := c\<lparr>queue := []\<rparr>, wqueue := fold (wq_Add Q) keys (wqueue S)\<rparr>"
proof -
  have "apply_calls Q (map QAdd keys) q = fold (wq_Add Q) keys q" for q
    by (induction keys arbitrary: q) (simp_all add: apply_calls_def)
  moreover have "delayed_keys (map QAdd keys) = {}" by (auto simp: delayed_keys_def)
  ultimately show ?thesis using assms by (simp add: submit_def)
qed

lemma managed_undisturbed:
  assumes "calling S g = Some ListNodes" "Ok E" "queue (ctl S) = []"
  shows "(disturb Q Ok)\<^sup>*\<^sup>* S (submit Q (enqueueManagedNodes E (ctl S)) (S\<lparr>calling := (calling S)(g := None)\<rparr>))"
proof -
  let ?keys = "case nodes_list (caches E) (nodeSelector (ctl S)) of Inl _ \<Rightarrow> [] | Inr nodes \<Rightarrow> map Name nodes"
  let ?S = "S\<lparr>calling := (calling S)(g := to_add ?keys)\<rparr>"
  have "list_managed E (nodeSelector (ctl S)) = to_add ?keys"
    by (simp add: list_managed_def to_add_def split: sum.split)
  then have "disturb Q Ok S ?S" using disturb.list_nodes [of S g Ok E Q] assms(1,2) by simp
  moreover have "(disturb Q Ok)\<^sup>*\<^sup>* ?S (?S\<lparr>wqueue := fold (wq_Add Q) ?keys (wqueue ?S), calling := (calling ?S)(g := None)\<rparr>)"
    by (rule add_keys_run) simp
  moreover have "?S\<lparr>wqueue := fold (wq_Add Q) ?keys (wqueue ?S), calling := (calling ?S)(g := None)\<rparr> =
      submit Q (enqueueManagedNodes E (ctl S)) (S\<lparr>calling := (calling S)(g := None)\<rparr>)"
  proof -
    have "queue (enqueueManagedNodes E (ctl S)) = map QAdd ?keys"
      using assms(3) by (simp add: enqueueManagedNodes_eq split: sum.split)
    moreover have "(enqueueManagedNodes E (ctl S))\<lparr>queue := []\<rparr> = ctl S"
      using assms(3) by (simp add: enqueueManagedNodes_eq no_calls)
    ultimately show ?thesis by (intro pool.equality) (simp_all add: submit_adds)
  qed
  ultimately show ?thesis by (metis converse_rtranclp_into_rtranclp)
qed

lemma handle_undisturbed:
  assumes "phase S \<noteq> Starting" "calling S g = None" "delivers g (ctl S) act" "Ok E" "queue (ctl S) = []"
  shows "(disturb Q Ok)\<^sup>*\<^sup>* S (submit Q (perform E act (ctl S)) S)"
proof -
  obtain cb a where b: "begin_act act (agg (ctl S)) = (cb, a)" by fastforce
  let ?S = "S\<lparr>ctl := (ctl S)\<lparr>agg := a\<rparr>, calling := (calling S)(g := cb)\<rparr>"
  have first: "disturb Q Ok S ?S" by (rule disturb.handle [OF assms(1-3) b])
  have idle: "(calling S)(g := None) = calling S" using assms(2) by (simp add: fun_upd_idem)
  have "(disturb Q Ok)\<^sup>*\<^sup>* ?S (submit Q (perform E act (ctl S)) S)"
  proof (cases act)
    case Skip
    with b idle assms(5) show ?thesis
      by (auto simp: begin_act_def perform_def submit_adds [of "ctl S" "[]"] no_calls)
  next
    case (AddKey key)
    with b have "calling ?S g = to_add [key]" "a = agg (ctl S)" by (auto simp: begin_act_def)
    with add_keys_run [OF this(1), of Q Ok] AddKey idle assms(5) show ?thesis
      by (simp add: perform_def submit_adds [of _ "[key]"] enqueue_def no_calls)
  next
    case (Change op)
    with b have a: "a = snd (op (agg (ctl S)))" "cb = (if fst (op (agg (ctl S))) then Some ListNodes else None)"
      by (auto simp: begin_act_def split: prod.splits)
    have agg_call: "perform E act (ctl S) = (if fst (op (agg (ctl S))) then enqueueManagedNodes E ((ctl S)\<lparr>agg := a\<rparr>)
        else (ctl S)\<lparr>agg := a\<rparr>)"
      using Change a(1) by (simp add: perform_def agg_call_def split: prod.splits)
    show ?thesis
    proof (cases "fst (op (agg (ctl S)))")
      case True
      with a have "calling ?S g = Some ListNodes" by simp
      moreover have "submit Q (perform E act (ctl S)) S =
          submit Q (enqueueManagedNodes E (ctl ?S)) (?S\<lparr>calling := (calling ?S)(g := None)\<rparr>)"
        using True agg_call idle by (intro pool.equality) simp_all
      ultimately show ?thesis using managed_undisturbed [of ?S g Ok E Q] assms(4,5) by simp
    next
      case False
      with a agg_call idle assms(5) show ?thesis
        by (simp add: submit_adds [of _ "[]"] no_calls)
    qed
  qed
  with first show ?thesis by (rule converse_rtranclp_into_rtranclp)
qed

lemma resync_undisturbed:
  assumes "ticking S" "calling S Resync = None" "Ok E" "queue (ctl S) = []"
  shows "(disturb Q Ok)\<^sup>*\<^sup>* S (submit Q (forceConfigResync E (ctl S)) S)"
proof -
  let ?S = "S\<lparr>ctl := (ctl S)\<lparr>pushState := []\<rparr>, calling := (calling S)(Resync := Some ListNodes)\<rparr>"
  have "disturb Q Ok S ?S" by (rule disturb.resync [OF assms(1,2)])
  moreover have "(disturb Q Ok)\<^sup>*\<^sup>* ?S (submit Q (forceConfigResync E (ctl S)) S)"
  proof -
    have "submit Q (forceConfigResync E (ctl S)) S =
        submit Q (enqueueManagedNodes E (ctl ?S)) (?S\<lparr>calling := (calling ?S)(Resync := None)\<rparr>)"
      using assms(2) by (intro pool.equality) (simp_all add: forceConfigResync_def fun_upd_idem)
    then show ?thesis using managed_undisturbed [of ?S Resync Ok E Q] assms by simp
  qed
  ultimately show ?thesis by (rule converse_rtranclp_into_rtranclp)
qed

section \<open>Well-formed controllers\<close>

definition ctrl_wf :: "'s controller \<Rightarrow> bool" where
  "ctrl_wf c \<longleftrightarrow>
     Namespace (Deploy (cfg c)) = CfgNamespace (cfg c) \<and>
     BootConfigMapName (Deploy (cfg c)) = CfgBootConfigMapName (cfg c) \<and>
     ag_namespace (agg c) = CfgNamespace (cfg c) \<and> mirrorName (agg c) = CfgBootConfigMapName (cfg c) \<and>
     bootstrap (agg c) = BootstrapCaddyfile (NewAdmin (CaddyAdminOriginKey (Deploy (cfg c))) (ForceReload (cfg c))) \<and>
     CfgBootConfigMapName (cfg c) \<noteq> BaseConfigMapName (cfg c) \<and>
     map_wf (externals (agg c)) \<and> map_wf (pushState c) \<and> has_enqueue (agg c)"

definition same_setup :: "aggregator \<Rightarrow> aggregator \<Rightarrow> bool" where
  "same_setup a b \<longleftrightarrow> ag_namespace b = ag_namespace a \<and> mirrorName b = mirrorName a \<and> bootstrap b = bootstrap a \<and>
     has_enqueue b = has_enqueue a \<and> (map_wf (externals a) \<longrightarrow> map_wf (externals b))"

lemma same_setup_simps [simp]:
  "same_setup a a" "same_setup a (snd (UpdateBase b a))" "same_setup a (snd (SetExternal s f a))"
  "same_setup a (snd (RemoveExternal s a))" "same_setup a (snd (Accept s' a))"
  by (simp_all add: same_setup_def UpdateBase_def SetExternal_def RemoveExternal_def update_def Let_def Accept_def)

lemma ctrl_wf_cong:
  "ctrl_wf c \<Longrightarrow> cfg c' = cfg c \<Longrightarrow> same_setup (agg c) (agg c') \<Longrightarrow> map_wf (pushState c') \<Longrightarrow> ctrl_wf c'"
  by (simp add: ctrl_wf_def same_setup_def)

definition steady :: "'s controller \<Rightarrow> 's controller \<Rightarrow> bool" where
  \<comment> \<open>what no step changes of a controller, and the acceptances it cannot undo\<close>
  "steady c c' \<longleftrightarrow> cfg c' = cfg c \<and> nodeSelector c' = nodeSelector c \<and> same_setup (agg c) (agg c') \<and>
     (map_wf (pushState c) \<longrightarrow> map_wf (pushState c'))"

lemma steady_refl [simp, intro]: "steady c c"
  by (simp add: steady_def)

lemma steady_trans: "steady a b \<Longrightarrow> steady b c \<Longrightarrow> steady a c"
  by (simp add: steady_def same_setup_def)

lemma steady_enqueue [simp]: "steady c (enqueue q c)"
  by (simp add: steady_def)

lemma steady_agg_call [simp]:
  "(\<And>a. same_setup a (snd (op a))) \<Longrightarrow> steady c (agg_call E op c)"
  by (simp add: steady_def)

lemma steady_grows: "grows Q c c' \<Longrightarrow> steady c c'"
  using grows_simps [of Q c c'] by (simp add: steady_def)

lemma steady_ensureLoaded: "ensureLoaded E n p s c = (x, c') \<Longrightarrow> steady c c'"
  by (erule ensureLoaded_cases) (simp_all add: steady_def recordPush_def)

lemma steady_accept: "steady c (accept_snapshot s c)"
  by (simp add: steady_def)

lemma steady_teardown: "teardownNode E n c = (r, c') \<Longrightarrow> steady c c'"
  by (erule teardownNode_cases) (simp add: steady_def clearPushState_def)

lemmas event_defs = node_AddFunc_def node_UpdateFunc_def node_DeleteFunc_def enqueueNodeIfManaged_def
  configMap_DeleteFunc_def managedObject_enqueue_def

lemma steady_event: "event c c' \<Longrightarrow> steady c c'"
  by (erule event.cases) (auto simp: event_defs Let_def split: option.splits)

lemma delivers_cases:
  assumes "delivers g c act"
  obtains (skip) "act = Skip" | (add) "act = AddKey mirrorKey"
  | (base) b where "act = Change (UpdateBase b)"
  | (set_external) s f where "act = Change (SetExternal s f)"
  | (remove) s where "act = Change (RemoveExternal s)"
  using assms
  by cases (auto simp: configMap_act_def upsert_act_def removal_act_def split: option.splits if_splits)

lemma begin_act_simps [simp]:
  "begin_act Skip a = (None, a)" "begin_act (AddKey key) a = (Some (AddKeys [key]), a)"
  "begin_act (Change op) a = (if fst (op a) then Some ListNodes else None, snd (op a))"
  by (simp_all add: begin_act_def to_add_def split: prod.split)

lemma begin_act_setup:
  assumes "delivers g c act" "begin_act act a = (cb, a')"
  shows "same_setup a a'"
  using assms(1)
  by (cases rule: delivers_cases)
    (use assms(2) in auto)

lemma steady_on_world: "on_world call c = (r, c') \<Longrightarrow> steady c c'"
  by (elim on_world_cases) (simp add: steady_def)

lemma worker_step_cases:
  assumes "worker_step E wk c = (wk', c', L)" "wk \<notin> {Idle, Exited}"
  obtains (publish) t r where "wk = Publishing t" "wk' = Finishing mirrorKey r" "L = {}"
      "on_world (publishMirror (kube E) (agg c) t) c = (r, c')"
  | (tear) k r where "wk = Tearing k" "on_world (Teardown (kube E) (checks E) (Deploy (cfg c)) k) c = (r, c')" "L = {}"
      "wk' = (if r = None then Clearing k else Finishing k r)"
  | (clear) k where "wk = Clearing k" "wk' = Finishing k None" "c' = clearPushState k c" "L = {}"
  | (deploy) k nd r where "wk = Deploying k nd" "deployNode E nd c = (r, c')" "L = {}"
      "wk' = (case r of Inl e \<Rightarrow> Finishing k (Some e) | Inr p \<Rightarrow> Merging k p)"
  | (push) k p s r where "wk = Pushing k p s" "on_world (pushFn E (cfg c) (cp_IP p) (Caddyfile s)) c = (r, c')"
      "L = (if r = None then {Caddyfile s} else {})"
      "wk' = (case r of None \<Rightarrow> Recording k p s | Some e \<Rightarrow> Finishing k (if is_config_rejected e then None else Some e))"
  | (record_push) k p s where "wk = Recording k p s" "wk' = Accepting k s" "L = {}"
      "c' = recordPush k (configDigest (Caddyfile s)) (cp_ContainerID p) c"
  | (accept) k s where "wk = Accepting k s" "wk' = Finishing k None" "c' = accept_snapshot s c" "L = {}"
  | (finishing) k r where "wk = Finishing k r" "wk' = Idle" "c' = finish k r c" "L = {}"
  | (local) "c' = c" "L = {}" "worker_key wk' = worker_key wk" "\<exists>k. wk = Picked k \<or> (\<exists>p. wk = Merging k p \<or> (\<exists>s. wk = Checking k p s))"
proof (cases wk)
  case (Publishing t)
  with assms publish show thesis by (auto simp: worker_step_def split: prod.splits)
next
  case (Tearing k)
  with assms tear show thesis by (auto simp: worker_step_def split: prod.splits option.splits)
next
  case (Clearing k)
  with assms clear show thesis by (simp add: worker_step_def)
next
  case (Deploying k nd)
  with assms deploy show thesis by (auto simp: worker_step_def split: prod.splits sum.splits)
next
  case (Pushing k p s)
  with assms push show thesis by (auto simp: worker_step_def split: prod.splits option.splits)
next
  case (Recording k p s)
  with assms record_push show thesis by (simp add: worker_step_def)
next
  case (Accepting k s)
  with assms accept show thesis by (simp add: worker_step_def)
next
  case (Finishing k r)
  with assms finishing show thesis by (simp add: worker_step_def finish_def)
qed (use assms local in \<open>auto simp: worker_step_def split: sum.splits if_splits\<close>)

lemma steady_records:
  "steady c (clearPushState k c)" "steady c (recordPush k d i c)" "steady c (finish k r c)"
  by (simp_all add: steady_def clearPushState_def recordPush_def finish_def)

lemma steady_work:
  assumes "worker_step E wk c = (wk', c', L)" "wk \<notin> {Idle, Exited}"
  shows "steady c c'"
  using assms
  by (cases rule: worker_step_cases)
    (auto intro: steady_on_world steady_grows [OF grows_deployNode] simp: steady_accept steady_records)

lemma steady_queue: "steady c (c'\<lparr>queue := q\<rparr>) \<longleftrightarrow> steady c c'"
  by (simp add: steady_def)

lemma InitializeMirror_setup:
  assumes "InitializeMirror api a w = (r, b, w')"
  shows "same_setup a b"
  using assms
  by (auto simp: InitializeMirror_def Let_def same_setup_def split: prod.splits sum.splits option.splits if_splits)

lemma steady_init:
  "InitializeMirror api (agg c) w = (r, a, w') \<Longrightarrow> steady c (c\<lparr>agg := a, world := w'\<rparr>)"
  by (simp add: steady_def InitializeMirror_setup)

lemma steady_pool_step: "pool_step Q Ok S S' \<Longrightarrow> steady (ctl S) (ctl S')"
  unfolding pool_step_def
  by (elim disjE move.cases disturb.cases)
    (auto simp: steady_queue steady_init intro: steady_work steady_event,
      auto simp: steady_def begin_act_setup)

lemma steady_pool: "(pool_step Q Ok)\<^sup>*\<^sup>* S S' \<Longrightarrow> steady (ctl S) (ctl S')"
  by (induction rule: rtranclp_induct) (auto intro: steady_trans steady_pool_step)

lemma steady_wf: "steady c c' \<Longrightarrow> ctrl_wf c \<Longrightarrow> ctrl_wf c'"
  by (rule ctrl_wf_cong) (auto simp: steady_def ctrl_wf_def)

lemma example_starts: "\<exists>c0. NewController example_platform (\<lambda>_. None) example_config mem_empty = Inr c0"
proof -
  have "\<exists>r. validateConfig example_platform example_config = Inr r"
    by (simp add: validateConfig_def example_platform_def example_config_def Validate_def example_options_def
        validate_names_def ValidateName_def dv.dns1123_subdomain_check dv.dns1123_label_check name_syntax_defs
        errors_Join_def List.map_filter_def)
  then obtain cf sel where v: "validateConfig example_platform example_config = Inr (cf, sel)"
    by (metis prod.collapse)
  have informers: "fst (setupInformers (\<lambda>_. None) cf') = None" for cf'
    using errors_Join_None [of "[None, None, None, None, None]"]
    by (cases "ExternalEnable cf'") (simp_all add: setupInformers_def register_def)
  show ?thesis by (simp add: NewController_def v Let_def informers)
qed

lemma NewController_wf:
  assumes "NewController P add cf w = Inr c0"
  shows "ctrl_wf c0" "pushState c0 = []" "world c0 = w"
  using assms
  by (auto simp: NewController_def Let_def ctrl_wf_def New_def validateConfig_Inr validate_external_Inr
      split: sum.splits option.splits if_splits)

text \<open>C33. A controller that was constructed without error is well-formed and stays so while it
  runs: its objects live in the configured namespace, its aggregator mirrors into the configured
  boot ConfigMap, which is never the base ConfigMap, with the bootstrap Caddyfile of its own admin
  client; its maps have one entry per key. No worker, event, resync or shutdown, in any
  interleaving, changes the configuration or the node selector.\<close>

theorem controller_stays_wf:
  assumes "NewController P add cf w = Inr c" and "(pool_step Q Ok)\<^sup>*\<^sup>* (Run_pool c q) S"
  shows "ctrl_wf (ctl S) \<and> cfg (ctl S) = cfg c \<and> nodeSelector (ctl S) = nodeSelector c"
proof -
  have "steady c (ctl (Run_pool c q))" by (simp add: Run_pool_def steady_def)
  then have "steady c (ctl S)" using steady_pool [OF assms(2)] steady_trans by blast
  with steady_wf [OF this NewController_wf(1) [OF assms(1)]] show ?thesis by (simp add: steady_def)
qed

theorem controller_stays_wf_witness:
  "\<exists>c S. NewController example_platform (\<lambda>_. None) example_config mem_empty = Inr c \<and>
     (pool_step list_queue_api (\<lambda>_. True))\<^sup>*\<^sup>* (Run_pool c \<lparr>lq_waiting = [], lq_active = [], lq_shut = False\<rparr>) S \<and>
     stopped S \<and> ctrl_wf (ctl S) \<and> cfg (ctl S) = cfg c"
proof -
  let ?q = "\<lparr>lq_waiting = [], lq_active = [], lq_shut = False\<rparr>"
  obtain c where c: "NewController example_platform (\<lambda>_. None) example_config mem_empty = Inr c"
    using example_starts by blast
  let ?S = "(Run_pool c ?q)\<lparr>stopped := True\<rparr>"
  have run: "(pool_step list_queue_api (\<lambda>_. True))\<^sup>*\<^sup>* (Run_pool c ?q) ?S"
    by (rule r_into_rtranclp) (simp add: pool_step_def disturb.stop)
  from controller_stays_wf [OF c run] c run show ?thesis by (intro exI [of _ c] exI [of _ ?S]) simp
qed

section \<open>Only loaded configurations are accepted\<close>

definition vouched :: "string set \<Rightarrow> string \<Rightarrow> bool" where
  \<comment> \<open>some loaded Caddyfile has this digest\<close>
  "vouched L d \<longleftrightarrow> (\<exists>t \<in> L. configDigest t = d)"

lemma vouched_mono: "vouched L d \<Longrightarrow> L \<subseteq> L' \<Longrightarrow> vouched L' d"
  by (auto simp: vouched_def)

lemma accepted_update [simp]:
  "accepted (snd (UpdateBase b a)) = accepted a" "accepted (snd (SetExternal s f a)) = accepted a"
  "accepted (snd (RemoveExternal s a)) = accepted a"
  by (simp_all add: UpdateBase_def SetExternal_def RemoveExternal_def update_def Let_def)

lemma accepted_Accept: "accepted (snd (Accept s a)) \<in> {accepted a, Caddyfile s}"
  by (simp add: Accept_def)

fun worker_sound :: "string set \<Rightarrow> string set \<Rightarrow> worker \<Rightarrow> bool" where
  \<comment> \<open>a worker about to record, accept or publish holds a configuration that may be used\<close>
  "worker_sound B L (Publishing t) \<longleftrightarrow> t \<noteq> [] \<and> (t \<in> B \<or> vouched L (configDigest t))"
| "worker_sound B L (Recording k p s) \<longleftrightarrow> vouched L (configDigest (Caddyfile s))"
| "worker_sound B L (Accepting k s) \<longleftrightarrow> vouched L (configDigest (Caddyfile s))"
| "worker_sound B L _ \<longleftrightarrow> True"

definition memory_sound :: "string set \<Rightarrow> string set \<Rightarrow> 's controller \<Rightarrow> bool" where
  "memory_sound B L c \<longleftrightarrow>
     (accepted (agg c) \<in> B \<or> vouched L (configDigest (accepted (agg c)))) \<and>
     (\<forall>n r. map_get (pushState c) n = Some r \<longrightarrow> vouched L (pr_digest r))"

definition pool_sound :: "string set \<Rightarrow> ('s, 'q) pool \<Rightarrow> bool" where
  \<comment> \<open>everything the manager would publish is in \<open>B\<close> or has the digest of a loaded configuration\<close>
  "pool_sound B S \<longleftrightarrow> phase S \<noteq> Starting \<and> memory_sound B (loaded S) (ctl S) \<and>
     (\<forall>wk \<in> set (workers S). worker_sound B (loaded S) wk)"

lemma worker_sound_mono: "worker_sound B L wk \<Longrightarrow> L \<subseteq> L' \<Longrightarrow> worker_sound B L' wk"
  by (cases wk) (auto intro: vouched_mono)

lemma memory_sound_keep:
  assumes "memory_sound B L c" "accepted (agg c') = accepted (agg c)" "L \<subseteq> L'"
    and "\<And>n r. map_get (pushState c') n = Some r \<Longrightarrow> map_get (pushState c) n = Some r"
  shows "memory_sound B L' c'"
  using assms vouched_mono [OF _ assms(3)] unfolding memory_sound_def by metis

lemma memory_sound_queue [simp]: "memory_sound B L (c\<lparr>queue := q\<rparr>) = memory_sound B L c"
  by (simp add: memory_sound_def)

lemma memory_sound_event: "event c c' \<Longrightarrow> memory_sound B L c \<Longrightarrow> memory_sound B L c'"
  by (erule event.cases; erule memory_sound_keep; auto simp: event_defs Let_def split: option.splits if_splits)

lemma begin_act_accepted:
  assumes "delivers g c act" "begin_act act a = (cb, a')"
  shows "accepted a' = accepted a"
  using assms(1)
  by (cases rule: delivers_cases)
    (use assms(2) in auto)

lemma pushUpToDate_vouched: "pushUpToDate n d i c \<Longrightarrow> memory_sound B L c \<Longrightarrow> vouched L d"
  by (auto simp: pushUpToDate_def memory_sound_def split: if_splits option.splits)

lemma worker_step_sound:
  assumes run: "worker_step E wk c = (wk', c', L')" and pos: "wk \<notin> {Idle, Exited}"
    and mem: "memory_sound B L c" and me: "worker_sound B L wk"
  shows "memory_sound B (L \<union> L') c' \<and> worker_sound B (L \<union> L') wk'"
  using run pos
proof (cases rule: worker_step_cases)
  case (publish t r)
  then show ?thesis by (auto elim!: on_world_cases intro: memory_sound_keep [OF mem])
next
  case (tear k r)
  then show ?thesis by (auto elim!: on_world_cases intro: memory_sound_keep [OF mem])
next
  case (clear k)
  then show ?thesis by (auto intro!: memory_sound_keep [OF mem] split: if_splits)
next
  case (deploy k nd r)
  then show ?thesis using grows_simps [OF grows_deployNode [OF deploy(2)]]
    by (auto intro: memory_sound_keep [OF mem] split: sum.splits)
next
  case (push k p s r)
  have "memory_sound B (L \<union> L') c'" using push(2) by (elim on_world_cases) (auto intro: memory_sound_keep [OF mem])
  with push show ?thesis by (auto simp: vouched_def split: option.splits)
next
  case (record_push k p s)
  with me have "vouched L (configDigest (Caddyfile s))" by simp
  with mem record_push show ?thesis by (auto simp: memory_sound_def)
next
  case (accept k s)
  with me have "vouched L (configDigest (Caddyfile s))" by simp
  moreover have "accepted (agg c') \<in> {accepted (agg c), Caddyfile s}"
    using accepted_Accept [of s "agg c"] accept by simp
  ultimately have "memory_sound B L c'" using mem accept by (auto simp: memory_sound_def)
  with accept show ?thesis by simp
next
  case (finishing k r)
  then show ?thesis using memory_sound_keep [OF mem, of c' "L"] by (simp add: finish_def)
next
  case local
  then obtain k where "wk = Picked k \<or> (\<exists>p. wk = Merging k p \<or> (\<exists>s. wk = Checking k p s))" by blast
  moreover have "worker_sound B L wk'" if "wk = Picked k"
    using that run mem by (auto simp: worker_step_def memory_sound_def split: sum.splits if_splits)
  moreover have "worker_sound B L wk'" if "wk = Merging k p" for p
    using that run by (auto simp: worker_step_def split: sum.splits)
  moreover have "worker_sound B L wk'" if "wk = Checking k p s" for p s
    using that run pushUpToDate_vouched [OF _ mem] by (auto simp: worker_step_def split: if_splits)
  ultimately show ?thesis using local mem by auto
qed

lemma pool_sound_step:
  assumes "pool_step Q Ok S S'" "pool_sound B S"
  shows "pool_sound B S'"
proof -
  note inv = assms(2) [unfolded pool_sound_def]
  from assms(1) consider "move Q Ok S S'" | "disturb Q Ok S S'" by (auto simp: pool_step_def)
  then show ?thesis
  proof cases
    case 1
    then show ?thesis
    proof cases
      case (work i E wk c L)
      have me: "worker_sound B (loaded S) (workers S ! i)" using inv work(2) by simp
      have "memory_sound B (loaded S \<union> L) c" "worker_sound B (loaded S \<union> L) wk"
        using worker_step_sound [OF work(5,3)] inv me by blast+
      moreover have "worker_sound B (loaded S \<union> L) x" if "x \<in> set (workers S)" for x
        using inv that by (blast intro: worker_sound_mono)
      ultimately show ?thesis
        using work inv set_update_subset_insert [of "workers S" i wk] by (auto simp: pool_sound_def)
    next
      case (get i key q)
      then show ?thesis using inv set_update_subset_insert [of "workers S" i "Picked key"] by (auto simp: pool_sound_def)
    next
      case (quit i)
      then show ?thesis using inv set_update_subset_insert [of "workers S" i Exited] by (auto simp: pool_sound_def)
    qed (use inv in \<open>auto simp: pool_sound_def\<close>)
  next
    case 2
    then show ?thesis
    proof cases
      case (outside w)
      with inv show ?thesis by (auto simp: pool_sound_def intro: memory_sound_keep)
    next
      case (handle g act cb a)
      with inv show ?thesis
        by (auto simp: pool_sound_def begin_act_accepted [OF handle(4,5)] intro: memory_sound_keep)
    next
      case resync
      with inv show ?thesis by (auto simp: pool_sound_def intro: memory_sound_keep)
    qed (use inv in \<open>auto simp: pool_sound_def memory_sound_event\<close>)
  qed
qed

lemma pool_sound_steps: "(pool_step Q Ok)\<^sup>*\<^sup>* S S' \<Longrightarrow> pool_sound B S \<Longrightarrow> pool_sound B S'"
  by (induction rule: rtranclp_induct) (auto intro: pool_sound_step)

text \<open>C4. The manager only accepts, and so only publishes for booting, a configuration that a
  Caddy instance has loaded. However the four workers, events, resyncs, delayed keys and changes
  of the outside interleave, access by access, once \<^verbatim>\<open>Run\<close> has read the boot ConfigMap, the accepted
  configuration is the one it started with or has the SHA-256 digest of a configuration that was
  loaded without error.\<close>

theorem accepted_was_loaded:
  assumes "phase S0 = Syncing" "workers S0 = []" "pushState (ctl S0) = []"
    and "(pool_step Q Ok)\<^sup>*\<^sup>* S0 S"
  shows "accepted (agg (ctl S)) = accepted (agg (ctl S0)) \<or>
         (\<exists>t \<in> loaded S. configDigest t = configDigest (accepted (agg (ctl S))))"
proof -
  have "pool_sound {accepted (agg (ctl S0))} S0" using assms by (simp add: pool_sound_def memory_sound_def)
  with pool_sound_steps [OF assms(4)] show ?thesis by (force simp: pool_sound_def memory_sound_def vouched_def)
qed

lemma solo_work:
  assumes "workers S = wk # ws" "wk \<notin> {Idle, Exited}" "Ok E" "worker_step E wk (ctl S) = (wk', c, L)"
  obtains S' where "pool_step Q Ok S S'" "workers S' = wk' # ws" "ctl S' = c\<lparr>queue := []\<rparr>"
    "loaded S' = loaded S \<union> L"
proof -
  let ?S = "submit Q c (S\<lparr>workers := (workers S)[0 := wk'], loaded := loaded S \<union> L,
    seen := read_merge (workers S ! 0) (agg (ctl S)) (seen S)\<rparr>)"
  have "move Q Ok S ?S" using assms by (intro move.work) auto
  then show thesis using that [of ?S] assms(1) by (simp add: pool_step_def)
qed

lemma solo_runs:
  assumes "workers S = wk # ws" "Ok E" "wk \<notin> {Idle, Exited}"
  shows "\<exists>S'. (pool_step Q Ok)\<^sup>*\<^sup>* S S' \<and> workers S' = fst (worker_step E wk (ctl S)) # ws \<and>
     ctl S' = (fst (snd (worker_step E wk (ctl S))))\<lparr>queue := []\<rparr>"
proof -
  obtain wk' c L where w: "worker_step E wk (ctl S) = (wk', c, L)" by (cases "worker_step E wk (ctl S)")
  obtain S' where "pool_step Q Ok S S'" "workers S' = wk' # ws" "ctl S' = c\<lparr>queue := []\<rparr>"
    using solo_work [where Q = Q and Ok = Ok, OF assms(1,3,2) w] by metis
  then show ?thesis using w by auto
qed

definition example_queue :: "string list \<Rightarrow> list_queue" where
  "example_queue keys = \<lparr>lq_waiting = keys, lq_active = [], lq_shut = False\<rparr>"

definition synced_pool :: "(mem, list_queue) pool" where
  "synced_pool = (Run_pool (example_controller one_node_world) (example_queue [''node1'']))\<lparr>phase := Syncing\<rparr>"

lemma synced_pool_picks:
  obtains S where "(pool_step list_queue_api Ok)\<^sup>*\<^sup>* synced_pool S" "workers S = Picked ''node1'' # replicate 3 Idle"
    "ctl S = example_controller one_node_world"
proof -
  let ?S1 = "synced_pool\<lparr>phase := Working, workers := replicate workerCount Idle,
      ticking := 0 < ConfigResyncInterval (cfg (ctl synced_pool))\<rparr>"
  let ?q = "\<lparr>lq_waiting = [], lq_active = [''node1''], lq_shut = False\<rparr>"
  let ?S2 = "?S1\<lparr>workers := (workers ?S1)[0 := Picked ''node1''], wqueue := ?q\<rparr>"
  have "move list_queue_api Ok synced_pool ?S1"
    by (rule move.synced) (simp add: synced_pool_def)
  moreover have "move list_queue_api Ok ?S1 ?S2"
    by (rule move.get)
      (simp_all add: workerCount_def synced_pool_def Run_pool_def example_queue_def list_queue_api_def lq_Get_def)
  ultimately have "(pool_step list_queue_api Ok)\<^sup>*\<^sup>* synced_pool ?S2"
    by (meson move_pool converse_rtranclp_into_rtranclp r_into_rtranclp)
  moreover have "workers ?S2 = Picked ''node1'' # replicate 3 Idle"
    by (simp add: workerCount_def numeral_eq_Suc)
  moreover have "ctl ?S2 = example_controller one_node_world"
    by (simp add: synced_pool_def Run_pool_def example_controller_def)
  ultimately show thesis by (rule that)
qed

lemma one_node_accepts:
  "\<exists>S. (pool_step list_queue_api (\<lambda>E. E = one_node))\<^sup>*\<^sup>* synced_pool S \<and>
     accepted (agg (ctl S)) \<noteq> accepted example_aggregator"
proof -
  let ?p = "\<lparr>cp_Name = ''caddy-node1-x'', cp_IP = ''192.0.2.7'', cp_ContainerID = ''c1''\<rparr>"
  let ?s = "\<lparr>Caddyfile = '':80'' @ nl @ external_section ''a/cm'' ''one'' @ external_section ''b/cm'' ''two'',
    Revision = 3\<rparr>"
  let ?step = "pool_step list_queue_api (\<lambda>E. E = one_node)"
  obtain c1 where d: "deployNode one_node (example_node ''node1'') (example_controller one_node_world) = (Inr ?p, c1)"
    "agg c1 = example_aggregator" "cfg c1 = example_config" "pushState c1 = []"
    using one_node_deploys by blast
  have m: "nodes_get (caches one_node) ''node1'' = Inr (example_node ''node1'')"
    "isManagedNode (example_controller one_node_world) (example_node ''node1'')"
    using one_node_managed by (auto simp: managed_now_def)
  have key: "''node1'' \<noteq> mirrorKey" by (simp add: mirrorKey_def)
  have max: "maxSecretSize one_node = 1048576" by (simp add: one_node_def example_sel)
  note solo = solo_runs [where Ok = "\<lambda>E. E = one_node" and Q = list_queue_api, OF _ refl]
  obtain S1 where S1: "?step\<^sup>*\<^sup>* synced_pool S1" "workers S1 = Picked ''node1'' # replicate 3 Idle"
    "ctl S1 = example_controller one_node_world" by (rule synced_pool_picks)
  obtain S2 where S2: "?step\<^sup>*\<^sup>* S1 S2" "workers S2 = Deploying ''node1'' (example_node ''node1'') # replicate 3 Idle"
    "ctl S2 = example_controller one_node_world"
    using solo [OF S1(2)] S1(3) m key by (auto simp: worker_step_def example_controller_def)
  obtain S3 where S3: "?step\<^sup>*\<^sup>* S2 S3" "workers S3 = Merging ''node1'' ?p # replicate 3 Idle" "ctl S3 = c1\<lparr>queue := []\<rparr>"
    using solo [OF S2(2)] S2(3) d(1) by (auto simp: worker_step_def)
  obtain S4 where S4: "?step\<^sup>*\<^sup>* S3 S4" "workers S4 = Checking ''node1'' ?p ?s # replicate 3 Idle" "ctl S4 = c1\<lparr>queue := []\<rparr>"
    using solo [OF S3(2)] S3(3) d max by (auto simp: worker_step_def example_merged)
  obtain S5 where S5: "?step\<^sup>*\<^sup>* S4 S5" "workers S5 = Pushing ''node1'' ?p ?s # replicate 3 Idle" "ctl S5 = c1\<lparr>queue := []\<rparr>"
    using solo [OF S4(2)] S4(3) d by (auto simp: worker_step_def pushUpToDate_def)
  have push: "pushFn one_node example_config ip (Caddyfile ?s) w = (None, w)" for ip w
    by (rule one_node_push) simp
  obtain S6 where S6: "?step\<^sup>*\<^sup>* S5 S6" "workers S6 = Recording ''node1'' ?p ?s # replicate 3 Idle" "agg (ctl S6) = example_aggregator"
    using solo [OF S5(2)] S5(3) d push by (auto simp: worker_step_def on_world_def)
  obtain S7 where S7: "?step\<^sup>*\<^sup>* S6 S7" "workers S7 = Accepting ''node1'' ?s # replicate 3 Idle" "agg (ctl S7) = example_aggregator"
    using solo [OF S6(2)] S6(3) by (auto simp: worker_step_def)
  obtain S8 where S8: "?step\<^sup>*\<^sup>* S7 S8" "agg (ctl S8) = snd (Accept ?s example_aggregator)"
    using solo [OF S7(2)] S7(3) by (auto simp: worker_step_def)
  have "accepted (snd (Accept ?s example_aggregator)) \<noteq> accepted example_aggregator"
    by (simp add: Accept_def example_aggregator_def New_def)
  moreover have "?step\<^sup>*\<^sup>* synced_pool S8"
    using S1(1) S2(1) S3(1) S4(1) S5(1) S6(1) S7(1) S8(1) by (meson rtranclp_trans)
  ultimately show ?thesis using S8(2) by auto
qed

theorem accepted_was_loaded_witness:
  "\<exists>S. (pool_step list_queue_api (\<lambda>E. E = one_node))\<^sup>*\<^sup>* synced_pool S \<and>
     accepted (agg (ctl S)) \<noteq> accepted example_aggregator \<and>
     (\<exists>t \<in> loaded S. configDigest t = configDigest (accepted (agg (ctl S))))"
proof -
  obtain S where S: "(pool_step list_queue_api (\<lambda>E. E = one_node))\<^sup>*\<^sup>* synced_pool S"
    "accepted (agg (ctl S)) \<noteq> accepted example_aggregator"
    using one_node_accepts by blast
  have "phase synced_pool = Syncing" "workers synced_pool = []" "pushState (ctl synced_pool) = []"
    "agg (ctl synced_pool) = example_aggregator"
    by (simp_all add: synced_pool_def Run_pool_def example_sel)
  with accepted_was_loaded [OF _ _ _ S(1)] S show ?thesis by metis
qed

end
