(* ===== verification/Progress.thy ===== *)
theory Progress
  imports System
begin

text \<open>
  What the concurrent controller achieves beyond safety of what it publishes: a key is in the hands
  of at most one worker, no change of the configuration is lost for a node, and \<^verbatim>\<open>Run\<close> comes to an
  end once its context is done. All of it rests on the contract of the work queue.
\<close>

section \<open>The calls a step makes on the queue\<close>

lemma worker_step_calls:
  assumes "worker_step E wk c = (wk', c', L)" "wk \<notin> {Idle, Exited}" "queue c = []"
  shows "QShutDown \<notin> set (queue c')"
    and "done_keys (queue c') = (case wk of Finishing k r \<Rightarrow> {k} | _ \<Rightarrow> {})"
    and "worker_key wk' = (case wk of Finishing k r \<Rightarrow> None | _ \<Rightarrow> worker_key wk)"
    and "wk = Finishing k (Some e) \<Longrightarrow> k \<in> delayed_keys (queue c')"
    and "worker_left wk' < worker_left wk"
proof -
  have "QShutDown \<notin> set (queue c') \<and> done_keys (queue c') = (case wk of Finishing k r \<Rightarrow> {k} | _ \<Rightarrow> {}) \<and>
    worker_key wk' = (case wk of Finishing k r \<Rightarrow> None | _ \<Rightarrow> worker_key wk) \<and>
    (wk = Finishing k (Some e) \<longrightarrow> k \<in> delayed_keys (queue c')) \<and> worker_left wk' < worker_left wk"
    using assms(1,2)
  proof (cases rule: worker_step_cases)
    case (deploy x nd r)
    then show ?thesis using grows_simps(5) [OF grows_deployNode [OF deploy(2)]] assms(3)
      by (auto simp: done_keys_def split: sum.splits)
  next
    case (accept x s)
    then show ?thesis using assms(3)
      by (auto simp: accept_snapshot_def done_keys_def Let_def split: prod.splits if_splits)
  next
    case (finishing x r)
    then show ?thesis using assms(3) by (auto simp: finish_def done_keys_def delayed_keys_def)
  next
    case local
    then show ?thesis using assms by (auto simp: done_keys_def worker_step_def split: sum.splits if_splits)
  qed (use assms(3) in \<open>auto simp: done_keys_def elim!: on_world_cases split: option.splits\<close>)
  then show "QShutDown \<notin> set (queue c')" "done_keys (queue c') = (case wk of Finishing k r \<Rightarrow> {k} | _ \<Rightarrow> {})"
    "worker_key wk' = (case wk of Finishing k r \<Rightarrow> None | _ \<Rightarrow> worker_key wk)"
    "wk = Finishing k (Some e) \<Longrightarrow> k \<in> delayed_keys (queue c')" "worker_left wk' < worker_left wk"
    by blast+
qed

definition only_adds :: "queue_call list \<Rightarrow> bool" where
  "only_adds calls \<longleftrightarrow> (\<forall>q \<in> set calls. \<exists>k. q = QAdd k)"

lemma only_adds_calls: "only_adds calls \<Longrightarrow> QShutDown \<notin> set calls \<and> done_keys calls = {} \<and> delayed_keys calls = {}"
  by (fastforce simp: only_adds_def done_keys_def delayed_keys_def)

lemma event_calls: "event c c' \<Longrightarrow> queue c = [] \<Longrightarrow> only_adds (queue c')"
  by (erule event.cases)
    (auto simp: event_defs Let_def only_adds_def [of "[]"] only_adds_def [of "[_]"] split: option.splits)

lemma pool_calls_submitted: "pool_step Q Ok S S' \<Longrightarrow> queue (ctl S) = [] \<Longrightarrow> queue (ctl S') = []"
  unfolding pool_step_def by (elim disjE move.cases disturb.cases) auto

section \<open>One worker per key\<close>

definition exclusive :: "('q \<Rightarrow> string set) \<Rightarrow> ('s, 'q) pool \<Rightarrow> bool" where
  "exclusive active S \<longleftrightarrow> queue (ctl S) = [] \<and>
     (\<forall>i < length (workers S). \<forall>k. worker_key (workers S ! i) = Some k \<longrightarrow>
        k \<in> active (wqueue S) \<and> (\<forall>j < length (workers S). worker_key (workers S ! j) = Some k \<longrightarrow> j = i))"

lemma exclusive_update:
  assumes "exclusive active S" "i < length (workers S)" "workers S' = (workers S)[i := wk]" "queue (ctl S') = []"
    and "\<And>k. worker_key wk = Some k \<Longrightarrow> k \<in> active (wqueue S') \<and>
          (worker_key (workers S ! i) = Some k \<or> k \<notin> active (wqueue S))"
    and "\<And>k. k \<in> active (wqueue S) \<Longrightarrow> worker_key (workers S ! i) \<noteq> Some k \<Longrightarrow> k \<in> active (wqueue S')"
  shows "exclusive active S'"
  unfolding exclusive_def
proof (intro conjI allI impI)
  fix j k assume j: "j < length (workers S')" and k: "worker_key (workers S' ! j) = Some k"
  note inv = assms(1) [unfolded exclusive_def]
  have "k \<in> active (wqueue S') \<and> (\<forall>l < length (workers S). worker_key (workers S' ! l) = Some k \<longrightarrow> l = j)"
  proof (cases "j = i")
    case True
    with k assms(2,3) have wk: "worker_key wk = Some k" by simp
    then have "k \<in> active (wqueue S')" using assms(5) by blast
    moreover have "l = i" if "l < length (workers S)" "worker_key (workers S' ! l) = Some k" for l
    proof (rule ccontr)
      assume "l \<noteq> i"
      with that assms(3) have "worker_key (workers S ! l) = Some k" by simp
      moreover from this that(1) inv have "k \<in> active (wqueue S)" by blast
      ultimately show False using assms(2) assms(5) [OF wk] inv that(1) \<open>l \<noteq> i\<close> by metis
    qed
    ultimately show ?thesis using True by blast
  next
    case False
    with j k assms(3) have old: "j < length (workers S)" "worker_key (workers S ! j) = Some k" by simp_all
    then have act: "k \<in> active (wqueue S)" "worker_key (workers S ! i) \<noteq> Some k" using inv False assms(2) by metis+
    moreover have "l = j" if "l < length (workers S)" "worker_key (workers S' ! l) = Some k" for l
      using that assms(2,3,5) act old inv by (cases "l = i") auto
    ultimately show ?thesis using assms(6) by blast
  qed
  then show "k \<in> active (wqueue S')" "\<And>l. l < length (workers S') \<Longrightarrow> worker_key (workers S' ! l) = Some k \<Longrightarrow> l = j"
    using assms(3) by simp_all
qed (rule assms(4))

lemma exclusive_same:
  "exclusive active S \<Longrightarrow> workers S' = workers S \<Longrightarrow> active (wqueue S') = active (wqueue S) \<Longrightarrow>
   queue (ctl S') = [] \<Longrightarrow> exclusive active S'"
  by (simp add: exclusive_def)



context work_queue
begin

lemma exclusive_step:
  assumes "pool_step Q Ok S S'" "exclusive active S"
  shows "exclusive active S'"
proof -
  note inv = assms(2) [unfolded exclusive_def]
  have calls: "queue (ctl S) = []" "queue (ctl S') = []"
    using inv pool_calls_submitted [OF assms(1)] by blast+
  from assms(1) consider "move Q Ok S S'" | "disturb Q Ok S S'" by (auto simp: pool_step_def)
  then show ?thesis
  proof cases
    case 1
    then show ?thesis
    proof cases
      case (work i E wk c L)
      note eff = worker_step_calls [OF work(5,3) calls(1)]
      have act: "active (wqueue S') = active (wqueue S) - (case workers S ! i of Finishing k r \<Rightarrow> {k} | _ \<Rightarrow> {})"
        using work eff(1,2) by (simp add: apply_calls_effect(2))
      show ?thesis
      proof (rule exclusive_update [OF assms(2) work(2), of S' wk])
        show "workers S' = (workers S)[i := wk]" using work by simp
        fix k
        show "k \<in> active (wqueue S') \<and> (worker_key (workers S ! i) = Some k \<or> k \<notin> active (wqueue S))"
          if "worker_key wk = Some k"
          using that eff(3) inv work(2) act by (auto split: worker.splits)
        show "k \<in> active (wqueue S')" if "k \<in> active (wqueue S)" "worker_key (workers S ! i) \<noteq> Some k"
          using that act by (auto split: worker.splits)
      qed (rule calls(2))
    next
      case (get i key q)
      note eff = get_Some [OF get(4)]
      show ?thesis
        by (rule exclusive_update [OF assms(2) get(2), of S' "Picked key"]) (use get eff calls(2) in auto)
    next
      case (quit i)
      show ?thesis
        by (rule exclusive_update [OF assms(2) quit(2), of S' Exited]) (use quit calls(2) in auto)
    next
      case synced
      then show ?thesis using calls(2) by (simp add: exclusive_def)
    qed (rule exclusive_same [OF assms(2)]; use calls in \<open>simp add: active_ShutDown\<close>)+
  next
    case 2
    then show ?thesis
    proof cases
      case (informer c)
      then show ?thesis using only_adds_calls [OF event_calls [OF informer(3) calls(1)]] calls(2)
        by (intro exclusive_same [OF assms(2)]) (simp_all add: apply_calls_effect(2))
    qed (rule exclusive_same [OF assms(2)]; use calls in \<open>simp add: active_Add\<close>)+
  qed
qed

lemma exclusive_steps: "(pool_step Q Ok)\<^sup>*\<^sup>* S S' \<Longrightarrow> exclusive active S \<Longrightarrow> exclusive active S'"
  by (induction rule: rtranclp_induct) (auto intro: exclusive_step)

end

lemma exclusive_start: "exclusive active (Run_pool c q)"
  by (simp add: exclusive_def Run_pool_def)

text \<open>C22. Whatever the interleaving, a key is in the hands of at most one worker from the moment the
  queue hands it out until the worker has marked it done. So two workers never deploy, push or tear
  down for the same node at the same time, and the boot ConfigMap has one publisher.\<close>

theorem one_worker_per_key:
  assumes "work_queue Q waiting active" and "(pool_step Q Ok)\<^sup>*\<^sup>* (Run_pool c q) S"
    and "i < length (workers S)" "j < length (workers S)"
    and "worker_key (workers S ! i) = Some k" "worker_key (workers S ! j) = Some k"
  shows "i = j"
proof -
  have "exclusive active S"
    by (rule work_queue.exclusive_steps [OF assms(1,2) exclusive_start])
  with assms(3-6) show ?thesis unfolding exclusive_def by metis
qed

section \<open>No change is lost\<close>

definition serves :: "string \<Rightarrow> (labels \<Rightarrow> bool) \<Rightarrow> 's env \<Rightarrow> bool" where
  \<comment> \<open>the informer cache knows the node, it is selected, and listing the nodes works\<close>
  "serves n sel E \<longleftrightarrow> (\<exists>nd nodes. nodes_get (caches E) n = Inr nd \<and> sel (Labels nd) \<and>
     nodes_list (caches E) sel = Inr nodes \<and> n \<in> Name ` set nodes)"

definition before_merge :: "string \<Rightarrow> worker \<Rightarrow> bool" where
  \<comment> \<open>the worker will read the merge for the node, or has failed and will put it back\<close>
  "before_merge n wk \<longleftrightarrow> (case wk of
      Picked k \<Rightarrow> k = n | Deploying k nd \<Rightarrow> k = n | Merging k p \<Rightarrow> k = n
    | Finishing k r \<Rightarrow> k = n \<and> r \<noteq> None | _ \<Rightarrow> False)"

definition called_back :: "string \<Rightarrow> callback option \<Rightarrow> bool" where
  \<comment> \<open>the goroutine is in \<open>enqueueManagedNodes\<close> and has not added the node yet\<close>
  "called_back n cb \<longleftrightarrow> (case cb of None \<Rightarrow> False | Some ListNodes \<Rightarrow> True | Some (AddKeys keys) \<Rightarrow> n \<in> set keys)"

definition tracked :: "'q queue_api \<Rightarrow> ('q \<Rightarrow> string set) \<Rightarrow> string \<Rightarrow> ('s, 'q) pool \<Rightarrow> bool" where
  "tracked Q waiting n S \<longleftrightarrow>
     wq_ShuttingDown Q (wqueue S) \<or> n \<in> waiting (wqueue S) \<or> n \<in> later S \<or> (\<exists>g. called_back n (calling S g)) \<or>
     (\<exists>wk \<in> set (workers S). before_merge n wk) \<or> seen S n = Some (revision (agg (ctl S)))"

definition sound_setup :: "(labels \<Rightarrow> bool) \<Rightarrow> ('s, 'q) pool \<Rightarrow> bool" where
  "sound_setup sel S \<longleftrightarrow> queue (ctl S) = [] \<and> has_enqueue (agg (ctl S)) \<and> nodeSelector (ctl S) = sel \<and>
     (phase S \<in> {Starting, Syncing} \<longrightarrow> workers S = [])"

lemma sound_setup_step:
  assumes "pool_step Q Ok S S'" "sound_setup sel S"
  shows "sound_setup sel S'"
proof -
  have "steady (ctl S) (ctl S')" by (rule steady_pool_step [OF assms(1)])
  moreover have "phase S' \<in> {Starting, Syncing} \<longrightarrow> workers S' = []"
    using assms unfolding pool_step_def sound_setup_def
    by (elim disjE move.cases disturb.cases) auto
  ultimately show ?thesis
    using pool_calls_submitted [OF assms(1)] assms(2) by (simp add: sound_setup_def steady_def same_setup_def)
qed

lemma revision_update [simp]:
  "fst (UpdateBase b a) \<longleftrightarrow> has_enqueue a \<and> revision (snd (UpdateBase b a)) \<noteq> revision a"
  "fst (SetExternal s f a) \<longleftrightarrow> has_enqueue a \<and> revision (snd (SetExternal s f a)) \<noteq> revision a"
  "fst (RemoveExternal s a) \<longleftrightarrow> has_enqueue a \<and> revision (snd (RemoveExternal s a)) \<noteq> revision a"
  by (auto simp: UpdateBase_def SetExternal_def RemoveExternal_def update_def Let_def)

lemma begin_act_revision:
  assumes "delivers g c act" "begin_act act a = (cb, a')" "has_enqueue a"
  shows "revision a' = revision a \<or> cb = Some ListNodes"
  using assms(1) by (cases rule: delivers_cases) (use assms(2,3) in \<open>auto split: if_splits\<close>)

lemma event_revision: "event c c' \<Longrightarrow> agg c' = agg c"
  by (erule event.cases) (auto simp: event_defs Let_def split: option.splits)

lemma called_back_simps [simp]:
  "\<not> called_back n None" "called_back n (Some ListNodes)" "called_back n (to_add keys) \<longleftrightarrow> n \<in> set keys"
  "called_back n (Some (AddKeys keys)) \<longleftrightarrow> n \<in> set keys"
  by (auto simp: called_back_def to_add_def)

lemma list_managed_serves: "serves n sel E \<Longrightarrow> called_back n (list_managed E sel)"
  by (auto simp: serves_def list_managed_def)

lemma worker_step_revision:
  assumes "worker_step E wk c = (wk', c', L)" "wk \<notin> {Idle, Exited}"
  shows "revision (agg c') = revision (agg c)"
  using assms
proof (cases rule: worker_step_cases)
  case (deploy k nd r)
  then show ?thesis using grows_simps(1) [OF grows_deployNode [OF deploy(2)]] by simp
qed (auto elim!: on_world_cases simp: Accept_def finish_def)

lemma before_merge_step:
  assumes "worker_step E wk c = (wk', c', L)" "before_merge n wk" "n \<noteq> mirrorKey" "serves n (nodeSelector c) E"
    and "queue c = []"
  shows "before_merge n wk' \<or> (\<exists>p. wk = Merging n p) \<or> n \<in> delayed_keys (queue c')"
proof (cases wk)
  case (Finishing k r)
  then show ?thesis using worker_step_calls(4) [OF assms(1) _ assms(5)] assms(2) by (auto simp: before_merge_def)
qed (use assms in \<open>auto simp: before_merge_def worker_step_def serves_def isManagedNode_def
    split: prod.splits sum.splits if_splits\<close>)

lemma tracked_keep:
  assumes "tracked Q waiting n S" "seen S' = seen S" "revision (agg (ctl S')) = revision (agg (ctl S))"
    and "\<And>wk. wk \<in> set (workers S) \<Longrightarrow> before_merge n wk \<Longrightarrow> wk \<in> set (workers S')"
    and "\<not> wq_ShuttingDown Q (wqueue S') \<Longrightarrow> (\<exists>g. called_back n (calling S g)) \<Longrightarrow>
      n \<in> waiting (wqueue S') \<or> (\<exists>g. called_back n (calling S' g))"
    and "\<not> wq_ShuttingDown Q (wqueue S') \<Longrightarrow> \<not> wq_ShuttingDown Q (wqueue S) \<and> waiting (wqueue S) \<union> later S \<subseteq> waiting (wqueue S') \<union> later S'"
  shows "tracked Q waiting n S'"
proof (cases "wq_ShuttingDown Q (wqueue S')")
  case False
  with assms(6) have "\<not> wq_ShuttingDown Q (wqueue S)" "waiting (wqueue S) \<union> later S \<subseteq> waiting (wqueue S') \<union> later S'"
    by blast+
  with assms(1-5) False show ?thesis unfolding tracked_def by (elim disjE) auto
qed (simp add: tracked_def)

context work_queue
begin

lemma tracked_work:
  assumes tr: "tracked Q waiting n S" and i: "i < length (workers S)" "workers S ! i \<notin> {Idle, Exited}"
    and E: "serves n (nodeSelector (ctl S)) E" and n: "n \<noteq> mirrorKey" and calls: "queue (ctl S) = []"
    and run: "worker_step E (workers S ! i) (ctl S) = (wk, c, L)"
  shows "tracked Q waiting n (submit Q c (S\<lparr>workers := (workers S)[i := wk], loaded := loaded S \<union> L,
      seen := read_merge (workers S ! i) (agg (ctl S)) (seen S)\<rparr>))" (is "tracked Q waiting n ?S")
proof (cases "wq_ShuttingDown Q (wqueue S)")
  case True
  then show ?thesis
    using apply_calls_effect(3) worker_step_calls(1) [OF run i(2) calls] by (simp add: tracked_def)
next
  case open_queue: False
  note eff = worker_step_calls [OF run i(2) calls]
  have rev: "revision (agg (ctl ?S)) = revision (agg (ctl S))" using worker_step_revision [OF run i(2)] by simp
  have wait: "waiting (wqueue S) \<subseteq> waiting (wqueue ?S)" "later S \<subseteq> later ?S"
    using open_queue eff(1) by (simp_all add: apply_calls_effect(1))
  have new: "wk \<in> set (workers ?S)" using i(1) by (simp add: set_update_memI)
  consider "n \<in> waiting (wqueue S) \<or> n \<in> later S \<or> (\<exists>g. called_back n (calling S g))" | wk0 where "wk0 \<in> set (workers S)" "before_merge n wk0"
    | "seen S n = Some (revision (agg (ctl S)))"
    using tr open_queue by (auto simp: tracked_def)
  then show ?thesis
  proof cases
    case 1
    with wait show ?thesis by (auto simp: tracked_def)
  next
    case 2
    then obtain j where j: "j < length (workers S)" "workers S ! j = wk0" by (auto simp: in_set_conv_nth)
    show ?thesis
    proof (cases "j = i")
      case True
      with before_merge_step [OF run _ n E calls] 2(2) j
      have "before_merge n wk \<or> (\<exists>p. workers S ! i = Merging n p) \<or> n \<in> delayed_keys (queue c)" by auto
      with new rev show ?thesis by (auto simp: tracked_def read_merge_def)
    next
      case False
      then have "(workers S)[i := wk] ! j = wk0" using j by simp
      then have "wk0 \<in> set ((workers S)[i := wk])" using j(1) by (metis length_list_update nth_mem)
      with 2(2) show ?thesis by (auto simp: tracked_def)
    qed
  next
    case 3
    with rev show ?thesis by (auto simp: tracked_def read_merge_def split: worker.splits)
  qed
qed

end

context work_queue
begin

lemma tracked_move:
  assumes "move Q (serves n sel) S S'" "tracked Q waiting n S" "sound_setup sel S" "n \<noteq> mirrorKey"
  shows "tracked Q waiting n S'"
proof -
  have calls: "queue (ctl S) = []" and sel: "sel = nodeSelector (ctl S)"
    using assms(3) by (auto simp: sound_setup_def)
  have others: "wk \<in> set ((workers S)[i := wk'])"
    if "wk \<in> set (workers S)" "before_merge n wk" "workers S ! i = Idle" for wk i wk'
  proof -
    from that obtain j where "j < length (workers S)" "workers S ! j = wk" by (auto simp: in_set_conv_nth)
    moreover from this that have "j \<noteq> i" by (auto simp: before_merge_def)
    ultimately show ?thesis by (metis length_list_update nth_list_update_neq nth_mem)
  qed
  note keep = tracked_keep [OF assms(2)]
  from assms(1) show ?thesis
  proof cases
    case (work i E wk c L)
    then show ?thesis using tracked_work [OF assms(2) work(2,3) _ assms(4) calls work(5)] sel by simp
  next
    case (get i key q)
    note eff = get_Some [OF get(4)]
    show ?thesis
    proof (cases "key = n")
      case True
      then have "before_merge n (Picked key)" by (simp add: before_merge_def)
      moreover have "Picked key \<in> set (workers S')" using get by (simp add: set_update_memI)
      ultimately show ?thesis unfolding tracked_def by blast
    next
      case False
      with get eff assms(2) others [OF _ _ get(3), of _ "Picked key"] show ?thesis by (auto simp: tracked_def)
    qed
  next
    case (quit i)
    then show ?thesis by (intro keep) (auto simp: others)
  next
    case (init E a w)
    then have "revision a = revision (agg (ctl S))"
      by (auto simp: InitializeMirror_def Let_def split: prod.splits sum.splits option.splits if_splits)
    with init show ?thesis by (intro keep) simp_all
  next
    case synced
    with assms(3) show ?thesis by (intro keep) (simp_all add: sound_setup_def)
  next
    case tick_stop
    show ?thesis
    proof (cases "wq_ShuttingDown Q (wqueue S)")
      case True
      with tick_stop(1) show ?thesis by (simp add: tracked_def)
    next
      case False
      with tick_stop have "calling S' = calling S" by (simp add: fun_upd_idem)
      with tick_stop(1) show ?thesis by (intro keep) simp_all
    qed
  next
    case init_fail
    then show ?thesis by (simp add: tracked_def shut_ShutDown)
  next
    case unsynced
    then show ?thesis by (simp add: tracked_def shut_ShutDown)
  next
    case drain
    then show ?thesis by (simp add: tracked_def shut_ShutDown)
  qed (rule keep; simp)+
qed

lemma tracked_disturb:
  assumes "disturb Q (serves n sel) S S'" "tracked Q waiting n S" "sound_setup sel S"
  shows "tracked Q waiting n S'"
proof -
  have calls: "queue (ctl S) = []" and enq: "has_enqueue (agg (ctl S))" and sel: "sel = nodeSelector (ctl S)"
    using assms(3) by (auto simp: sound_setup_def)
  note keep = tracked_keep [OF assms(2)]
  from assms(1) show ?thesis
  proof cases
    case (informer c)
    note only = only_adds_calls [OF event_calls [OF informer(3) calls]]
    then show ?thesis using informer(1) event_revision [OF informer(3)]
      by (intro keep) (auto simp: apply_calls_effect)
  next
    case (handle g act cb a)
    have others: "called_back n (calling S' g')" if "called_back n (calling S g')" for g'
      using that handle(1,3) by (cases "g' = g") auto
    have same: "seen S' = seen S" "workers S' = workers S" "wqueue S' = wqueue S" "later S' = later S" "agg (ctl S') = a"
      using handle(1) by simp_all
    from begin_act_revision [OF handle(4,5) enq] show ?thesis
    proof
      assume "revision a = revision (agg (ctl S))"
      with same show ?thesis by (intro keep) (use others in auto)
    next
      assume "cb = Some ListNodes"
      with handle(1) show ?thesis unfolding tracked_def by auto
    qed
  next
    case resync
    have "called_back n (calling S' Resync)" using resync(1) by simp
    then show ?thesis unfolding tracked_def by blast
  next
    case (list_nodes g E)
    have "called_back n (calling S' g)" using list_nodes(1,3) list_managed_serves sel by simp
    then show ?thesis unfolding tracked_def by blast
  next
    case (add_key g key keys)
    have others: "n = key \<or> called_back n (calling S' g')" if "called_back n (calling S g')" for g'
      using that add_key by (cases "g' = g") auto
    have same: "seen S' = seen S" "workers S' = workers S" "wqueue S' = wq_Add Q key (wqueue S)" "later S' = later S"
      "ctl S' = ctl S" using add_key(1) by simp_all
    show ?thesis by (intro keep) (use others same in \<open>auto simp: waiting_Add shut_Add\<close>)
  next
    case (delayed_add key)
    then show ?thesis by (intro keep) (auto simp: waiting_Add shut_Add)
  qed (rule keep; simp)+
qed

lemma tracked_step:
  "pool_step Q (serves n sel) S S' \<Longrightarrow> tracked Q waiting n S \<Longrightarrow> sound_setup sel S \<Longrightarrow> n \<noteq> mirrorKey \<Longrightarrow>
   tracked Q waiting n S'"
  using tracked_move tracked_disturb by (auto simp: pool_step_def)

text \<open>A callback under way is not stuck: left alone, its goroutine adds the node to the queue.\<close>

lemma callback_arrives:
  assumes "called_back n (calling S g)" "serves n (nodeSelector (ctl S)) E" "Ok E"
    and "\<not> wq_ShuttingDown Q (wqueue S)" "queue (ctl S) = []"
  shows "\<exists>S'. (disturb Q Ok)\<^sup>*\<^sup>* S S' \<and> n \<in> waiting (wqueue S')"
proof (cases "calling S g")
  case (Some cb)
  show ?thesis
  proof (cases cb)
    case ListNodes
    let ?c = "enqueueManagedNodes E (ctl S)"
    have "only_adds (queue ?c)" using assms(5) by (auto simp: enqueueManagedNodes_eq only_adds_def split: sum.splits)
    moreover have "n \<in> added_keys (queue ?c)"
      using assms(2) by (auto simp: serves_def enqueueManagedNodes_eq added_keys_def)
    ultimately have "n \<in> waiting (wqueue (submit Q ?c (S\<lparr>calling := (calling S)(g := None)\<rparr>)))"
      using assms(4) only_adds_calls by (simp add: apply_calls_effect)
    with managed_undisturbed [of S g Ok E Q] Some ListNodes assms(3,5) show ?thesis by blast
  next
    case (AddKeys keys)
    with Some assms(1) have keys: "calling S g = to_add keys" "n \<in> set keys" by (auto simp: to_add_def)
    have "n \<in> waiting (fold (wq_Add Q) keys q)" if "\<not> wq_ShuttingDown Q q" "n \<in> set keys \<or> n \<in> waiting q" for q
      using that by (induction keys arbitrary: q) (auto simp: waiting_Add shut_Add)
    with keys(2) assms(4) have "n \<in> waiting (fold (wq_Add Q) keys (wqueue S))" by blast
    with add_keys_run [OF keys(1), of Q Ok] show ?thesis by (intro exI) auto
  qed
qed (use assms(1) in simp)

lemma tracked_steps:
  assumes "(pool_step Q (serves n sel))\<^sup>*\<^sup>* S S'" "tracked Q waiting n S" "sound_setup sel S" "n \<noteq> mirrorKey"
  shows "tracked Q waiting n S' \<and> sound_setup sel S'"
  using assms by (induction rule: rtranclp_induct) (blast intro: tracked_step sound_setup_step)+

end

lemma sound_setup_steps:
  assumes "(pool_step Q Ok)\<^sup>*\<^sup>* S S'" "sound_setup sel S"
  shows "sound_setup sel S'"
  using assms by (induction rule: rtranclp_induct) (auto intro: sound_setup_step)

lemma sound_setup_start:
  "NewController P add cf w = Inr c \<Longrightarrow> sound_setup (nodeSelector c) (Run_pool c q)"
  using NewController_wf(1) by (fastforce simp: sound_setup_def Run_pool_def ctrl_wf_def)

text \<open>C5. No change of the configuration is lost. Take a node that is managed throughout and has been
  queued once, as its informer event does. The aggregator changes its content and revision under its
  lock, releases the lock, and only then lists the nodes and queues them one by one, while workers,
  other events, failures and resyncs go on in between. At every moment until shutdown begins, the node
  is queued, or will be queued again after a delay, or a goroutine is in the middle of
  \<^verbatim>\<open>enqueueManagedNodes\<close> and will still add it, or it is held by a worker that has yet to read the merged
  configuration or to put the failed node back, or the last merge that was read for it has the current
  revision. So a node is never left with an outdated configuration and nothing on its way.\<close>

theorem no_lost_update:
  assumes "work_queue Q waiting active" and "NewController P add cf w = Inr c"
    and "(pool_step Q Ok)\<^sup>*\<^sup>* (Run_pool c q) S0" and "n \<in> waiting (wqueue S0)" "n \<noteq> mirrorKey"
    and "(pool_step Q (serves n (nodeSelector c)))\<^sup>*\<^sup>* S0 S" and "\<not> wq_ShuttingDown Q (wqueue S)"
  shows "n \<in> waiting (wqueue S) \<or> n \<in> later S \<or> (\<exists>g. called_back n (calling S g)) \<or>
         (\<exists>wk \<in> set (workers S). before_merge n wk) \<or> seen S n = Some (revision (agg (ctl S)))"
proof -
  have "sound_setup (nodeSelector c) S0"
    by (rule sound_setup_steps [OF assms(3) sound_setup_start [OF assms(2)]])
  moreover have "tracked Q waiting n S0" using assms(4) by (simp add: tracked_def)
  ultimately show ?thesis
    using work_queue.tracked_steps [OF assms(1,6)] assms(5,7) by (auto simp: tracked_def)
qed

section \<open>Shutdown\<close>

definition drain_work :: "('q \<Rightarrow> string set) \<Rightarrow> ('s, 'q) pool \<Rightarrow> nat" where
  \<comment> \<open>ten steps for each key still queued, and what each worker has left\<close>
  "drain_work waiting S =
     10 * card (waiting (wqueue S)) + sum_list (map worker_left (workers S)) + (if ticking S then 1 else 0)"

definition draining :: "'q queue_api \<Rightarrow> ('s, 'q) pool \<Rightarrow> bool" where
  "draining Q S \<longleftrightarrow> phase S = Draining \<and> wq_ShuttingDown Q (wqueue S) \<and> stopped S \<and> queue (ctl S) = []"

definition run_over :: "('s, 'q) pool \<Rightarrow> bool" where
  "run_over S \<longleftrightarrow> phase S = Returned None \<and> (\<forall>wk \<in> set (workers S). wk = Exited) \<and> \<not> ticking S"

lemma sum_left_update:
  assumes "i < length ws" "worker_left wk < worker_left (ws ! i) + d"
  shows "sum_list (map worker_left (ws[i := wk])) < sum_list (map worker_left ws) + d"
  using assms
proof (induction ws arbitrary: i)
  case (Cons x ws)
  then show ?case by (cases i) force+
qed simp

lemma no_move_when_over: "run_over S \<Longrightarrow> \<not> move Q Ok S S'"
  by (fastforce simp: run_over_def all_set_conv_all_nth elim!: move.cases)

lemma disturb_over: "disturb Q Ok S S' \<Longrightarrow> run_over S \<Longrightarrow> run_over S'"
  by (auto simp: run_over_def elim!: disturb.cases)

context work_queue
begin

lemma drain_disturb:
  assumes "disturb Q Ok S S'" "draining Q S"
  shows "draining Q S' \<and> drain_work waiting S' = drain_work waiting S"
  using assms(1)
proof cases
  case (informer c)
  then show ?thesis using assms(2) only_adds_calls [OF event_calls [OF informer(3)]]
    by (auto simp: draining_def drain_work_def apply_calls_effect)
next
  case (add_key g key keys)
  then show ?thesis using assms(2) by (auto simp: draining_def drain_work_def waiting_Add shut_Add)
next
  case (delayed_add key)
  then show ?thesis using assms(2) by (auto simp: draining_def drain_work_def waiting_Add shut_Add)
qed (use assms(2) in \<open>auto simp: draining_def drain_work_def\<close>)

lemma drain_move:
  assumes "move Q Ok S S'" "draining Q S"
  shows "draining Q S' \<and> drain_work waiting S' < drain_work waiting S \<or> run_over S'"
  using assms(1)
proof cases
  case (get i key q)
  note eff = get_Some [OF get(4)]
  then have "card (waiting q) + 1 = card (waiting (wqueue S))"
    using card_Suc_Diff1 [OF finite_waiting, of key] by simp
  moreover have "sum_list (map worker_left ((workers S)[i := Picked key])) < sum_list (map worker_left (workers S)) + 9"
    by (rule sum_left_update) (use get in simp_all)
  ultimately show ?thesis using get assms(2) eff by (auto simp: draining_def drain_work_def)
next
  case (work i E wk c L)
  have calls: "queue (ctl S) = []" using assms(2) by (simp add: draining_def)
  note eff = worker_step_calls [OF work(5,3) calls]
  have "sum_list (map worker_left ((workers S)[i := wk])) < sum_list (map worker_left (workers S)) + 0"
    by (rule sum_left_update) (use work eff(5) in simp_all)
  then show ?thesis using work assms(2) eff(1) by (auto simp: draining_def drain_work_def apply_calls_effect)
next
  case (quit i)
  have "sum_list (map worker_left ((workers S)[i := Exited])) < sum_list (map worker_left (workers S)) + 0"
    by (rule sum_left_update) (use quit in simp_all)
  then show ?thesis using quit assms(2) by (auto simp: draining_def drain_work_def)
next
  case tick_stop
  then show ?thesis using assms(2) by (auto simp: draining_def drain_work_def)
next
  case wait
  then show ?thesis by (auto simp: run_over_def)
qed (use assms(2) in \<open>auto simp: draining_def\<close>)

lemma drain_enabled:
  assumes "draining Q S" "Ok E"
  shows "\<exists>S'. move Q Ok S S'"
proof (cases "\<forall>wk \<in> set (workers S). wk = Exited")
  case True
  then show ?thesis
    using assms(1) by (cases "ticking S") (auto simp: draining_def intro: move.tick_stop move.wait)
next
  case False
  then obtain i where i: "i < length (workers S)" "workers S ! i \<noteq> Exited" by (auto simp: in_set_conv_nth)
  show ?thesis
  proof (cases "workers S ! i = Idle")
    case True
    show ?thesis
    proof (cases "wq_Get Q (wqueue S)")
      case None
      with assms(1) i True show ?thesis by (auto simp: draining_def intro: move.quit)
    next
      case (Some x)
      with i True show ?thesis by (cases x) (auto intro: move.get)
    qed
  next
    case False
    obtain wk c L where "worker_step E (workers S ! i) (ctl S) = (wk, c, L)"
      by (cases "worker_step E (workers S ! i) (ctl S)")
    with i False assms(2) show ?thesis by (blast intro: move.work)
  qed
qed

lemma drain_disturbs:
  assumes "(disturb Q Ok)\<^sup>*\<^sup>* S S'" "draining Q S"
  shows "draining Q S' \<and> drain_work waiting S' = drain_work waiting S"
  using assms
proof (induction rule: rtranclp_induct)
  case (step T U)
  then show ?case using drain_disturb [OF step(2)] by simp
qed simp

lemma drain_bounded:
  assumes "(((disturb Q Ok)\<^sup>*\<^sup>* OO move Q Ok) ^^ k) S0 S" "draining Q S0"
  shows "draining Q S \<and> k + drain_work waiting S \<le> drain_work waiting S0 \<or>
         run_over S \<and> k \<le> drain_work waiting S0 + 1"
  using assms(1)
proof (induction k arbitrary: S)
  case (Suc k)
  then obtain T U where T: "(((disturb Q Ok)\<^sup>*\<^sup>* OO move Q Ok) ^^ k) S0 T" "(disturb Q Ok)\<^sup>*\<^sup>* T U" "move Q Ok U S"
    by auto
  have "\<not> run_over T"
  proof
    assume "run_over T"
    with T(2) have "run_over U" by (induction rule: rtranclp_induct) (auto intro: disturb_over)
    with T(3) no_move_when_over show False by blast
  qed
  with Suc.IH [OF T(1)] have "draining Q T" "k + drain_work waiting T \<le> drain_work waiting S0" by auto
  moreover from this drain_disturbs [OF T(2)] have "draining Q U" "drain_work waiting U = drain_work waiting T" by auto
  ultimately show ?case using drain_move [OF T(3)] by auto
qed (use assms(2) in simp)

end

definition stop_seen :: "'q queue_api \<Rightarrow> ('s, 'q) pool \<Rightarrow> bool" where
  \<comment> \<open>\<open>Run\<close> drains and returns nil only after its context ended, with the queue shut down\<close>
  "stop_seen Q S \<longleftrightarrow> queue (ctl S) = [] \<and> (phase S = Draining \<longrightarrow> wq_ShuttingDown Q (wqueue S) \<and> stopped S) \<and>
     (phase S = Returned None \<longrightarrow> stopped S)"

context work_queue
begin

lemma stop_seen_step:
  assumes "pool_step Q Ok S S'" "stop_seen Q S"
  shows "stop_seen Q S'"
proof -
  have calls: "queue (ctl S) = []" "queue (ctl S') = []"
    using assms pool_calls_submitted by (auto simp: stop_seen_def)
  from assms(1) consider "move Q Ok S S'" | "disturb Q Ok S S'" by (auto simp: pool_step_def)
  then show ?thesis
  proof cases
    case 1
    then show ?thesis
    proof cases
      case (work i E wk c L)
      then show ?thesis using assms(2) worker_step_calls(1) [OF work(5,3) calls(1)] calls(2)
        by (simp add: stop_seen_def apply_calls_effect)
    next
      case (get i key q)
      then show ?thesis using assms(2) get_Some [OF get(4)] by (simp add: stop_seen_def)
    qed (use assms(2) shut_ShutDown in \<open>auto simp: stop_seen_def\<close>)
  next
    case 2
    then show ?thesis
    proof cases
      case (informer c)
      then show ?thesis using assms(2) only_adds_calls [OF event_calls [OF informer(3) calls(1)]]
        by (simp add: stop_seen_def apply_calls_effect)
    qed (use assms(2) in \<open>auto simp: stop_seen_def shut_Add\<close>)
  qed
qed

lemma stop_seen_reachable: "(pool_step Q Ok)\<^sup>*\<^sup>* (Run_pool c q) S \<Longrightarrow> stop_seen Q S"
proof (induction rule: rtranclp_induct)
  case (step T U)
  then show ?case by (blast intro: stop_seen_step)
qed (simp add: stop_seen_def Run_pool_def)

end

text \<open>C18. \<^verbatim>\<open>Run\<close> ends. Once it has begun to shut down, the workers and \<^verbatim>\<open>Run\<close> itself take at most ten
  steps for each key still queued, what the workers have left of their keys, and two more, whatever
  events, resyncs, delayed keys and outside changes come in between; as long as it has not returned,
  one of them can take a step; and it returns nil with every worker ended. New keys do not prolong
  the shutdown.\<close>

theorem run_shuts_down:
  assumes "work_queue Q waiting active" and "(pool_step Q Ok)\<^sup>*\<^sup>* (Run_pool c q) S0" "phase S0 = Draining"
    and "Ok E" and "(((disturb Q Ok)\<^sup>*\<^sup>* OO move Q Ok) ^^ k) S0 S"
  shows "k \<le> drain_work waiting S0 + 1 \<and>
         (phase S = Returned None \<and> (\<forall>wk \<in> set (workers S). wk = Exited) \<or>
          phase S = Draining \<and> (\<exists>S'. move Q Ok S S'))"
proof -
  have "draining Q S0"
    using work_queue.stop_seen_reachable [OF assms(1,2)] assms(3) by (simp add: stop_seen_def draining_def)
  then consider "draining Q S" "k + drain_work waiting S \<le> drain_work waiting S0"
    | "run_over S" "k \<le> drain_work waiting S0 + 1"
    using work_queue.drain_bounded [OF assms(1,5)] by blast
  then show ?thesis
  proof cases
    case 1
    then show ?thesis using work_queue.drain_enabled [OF assms(1) 1(1), of Ok E, OF assms(4)] by (simp add: draining_def)
  qed (simp add: run_over_def)
qed

section \<open>Runs of the example\<close>

lemma example_working:
  assumes "Ok (example_env [] [])"
  obtains c S where "NewController example_platform (\<lambda>_. None) example_config mem_empty = Inr c"
    "(pool_step list_queue_api Ok)\<^sup>*\<^sup>* (Run_pool c (example_queue keys)) S" "phase S = Working"
    "workers S = replicate 4 Idle" "wqueue S = example_queue keys" "\<not> ticking S"
proof -
  let ?E = "example_env [] []"
  obtain c where c: "NewController example_platform (\<lambda>_. None) example_config mem_empty = Inr c"
    using example_starts by blast
  let ?S0 = "Run_pool c (example_queue keys)"
  obtain a w where i: "InitializeMirror mem_api (agg c) mem_empty = (None, a, w)"
    using mem_initialize [of mem_empty "agg c"] by (auto simp: mem_empty_def)
  let ?S1 = "?S0\<lparr>phase := Syncing, ctl := (ctl ?S0)\<lparr>agg := a, world := w\<rparr>, booted := Some (world (ctl ?S0))\<rparr>"
  let ?S2 = "?S1\<lparr>phase := Working, workers := replicate workerCount Idle,
    ticking := 0 < ConfigResyncInterval (cfg (ctl ?S1))\<rparr>"
  have "move list_queue_api Ok ?S0 ?S1"
    by (rule move.init [of _ Ok ?E]) (use assms i NewController_wf(3) [OF c] in \<open>simp_all add: Run_pool_def example_sel\<close>)
  moreover have "move list_queue_api Ok ?S1 ?S2" by (rule move.synced) simp
  ultimately have "(pool_step list_queue_api Ok)\<^sup>*\<^sup>* ?S0 ?S2"
    by (meson move_pool converse_rtranclp_into_rtranclp r_into_rtranclp)
  moreover have "\<not> ticking ?S2"
    using c by (auto simp: Run_pool_def NewController_def validateConfig_Inr Let_def example_config_def
        split: sum.splits option.splits if_splits)
  ultimately show thesis using that [OF c, of ?S2] by (simp add: workerCount_def Run_pool_def)
qed

lemma example_get:
  assumes "workers S = replicate 4 Idle" "wqueue S = (example_queue [''node1''])\<lparr>lq_shut := b\<rparr>"
  obtains S' where "move list_queue_api Ok S S'" "workers S' = [Picked ''node1'', Idle, Idle, Idle]" "phase S' = phase S"
    "wqueue S' = \<lparr>lq_waiting = [], lq_active = [''node1''], lq_shut = b\<rparr>"
proof -
  let ?q = "\<lparr>lq_waiting = [], lq_active = [''node1''], lq_shut = b\<rparr>"
  have "move list_queue_api Ok S (S\<lparr>workers := (workers S)[0 := Picked ''node1''], wqueue := ?q\<rparr>)"
    by (rule move.get) (simp_all add: assms example_queue_def list_queue_api_def lq_Get_def)
  then show thesis by (rule that) (simp_all add: assms numeral_eq_Suc)
qed

theorem one_worker_per_key_witness:
  "\<exists>c S. (pool_step list_queue_api (\<lambda>_ :: mem env. True))\<^sup>*\<^sup>* (Run_pool c (example_queue [''node1''])) S \<and>
     length (workers S) = 4 \<and> worker_key (workers S ! 0) = Some ''node1'' \<and> worker_key (workers S ! 1) \<noteq> Some ''node1''"
proof -
  obtain c S where S: "(pool_step list_queue_api (\<lambda>_ :: mem env. True))\<^sup>*\<^sup>* (Run_pool c (example_queue [''node1''])) S"
    "workers S = replicate 4 Idle" "wqueue S = example_queue [''node1'']"
    using example_working [of "\<lambda>_. True" "[''node1'']"] by metis
  then have "wqueue S = (example_queue [''node1''])\<lparr>lq_shut := False\<rparr>" by (simp add: example_queue_def)
  then obtain S' where S': "move list_queue_api (\<lambda>_ :: mem env. True) S S'" "workers S' = [Picked ''node1'', Idle, Idle, Idle]"
    using example_get [OF S(2), where Ok = "\<lambda>_. True"] by metis
  have run: "(pool_step list_queue_api (\<lambda>_ :: mem env. True))\<^sup>*\<^sup>* (Run_pool c (example_queue [''node1''])) S'"
    using S(1) move_pool [OF S'(1)] by (rule rtranclp.rtrancl_into_rtrancl)
  have "worker_key (workers S' ! 1) \<noteq> Some ''node1''"
    using one_worker_per_key [OF listq.work_queue_axioms run, of 1 0 "''node1''"] S'(2) by auto
  with run S'(2) show ?thesis by (intro exI [of _ c] exI [of _ S']) simp
qed

theorem no_lost_update_witness:
  "\<exists>c S. NewController example_platform (\<lambda>_. None) example_config mem_empty = Inr c \<and>
     (pool_step list_queue_api (\<lambda>_ :: mem env. True))\<^sup>*\<^sup>* (Run_pool c (example_queue [''node1''])) S \<and>
     workers S = [Picked ''node1'', Idle, Idle, Idle] \<and> \<not> lq_shut (wqueue S) \<and> ''node1'' \<notin> set (lq_waiting (wqueue S)) \<and>
     (''node1'' \<in> later S \<or> (\<exists>g. called_back ''node1'' (calling S g)) \<or> (\<exists>wk \<in> set (workers S). before_merge ''node1'' wk) \<or>
      seen S ''node1'' = Some (revision (agg (ctl S))))"
proof -
  let ?ok = "\<lambda>_ :: mem env. True"
  obtain c S where S: "NewController example_platform (\<lambda>_. None) example_config mem_empty = Inr c"
    "(pool_step list_queue_api ?ok)\<^sup>*\<^sup>* (Run_pool c (example_queue [''node1''])) S"
    "workers S = replicate 4 Idle" "wqueue S = example_queue [''node1'']"
    using example_working [of ?ok "[''node1'']"] by metis
  then have q: "wqueue S = (example_queue [''node1''])\<lparr>lq_shut := False\<rparr>" by (simp add: example_queue_def)
  obtain S' where S': "\<And>Ok. move list_queue_api Ok S S'" "workers S' = [Picked ''node1'', Idle, Idle, Idle]"
    "wqueue S' = \<lparr>lq_waiting = [], lq_active = [''node1''], lq_shut = False\<rparr>"
  proof -
    let ?S = "S\<lparr>workers := (workers S)[0 := Picked ''node1''], wqueue := \<lparr>lq_waiting = [], lq_active = [''node1''], lq_shut = False\<rparr>\<rparr>"
    have "move list_queue_api Ok S ?S" for Ok
      by (rule move.get) (simp_all add: S example_queue_def list_queue_api_def lq_Get_def)
    then show thesis by (rule that) (simp_all add: S numeral_eq_Suc)
  qed
  have run: "(pool_step list_queue_api (serves ''node1'' (nodeSelector c)))\<^sup>*\<^sup>* S S'"
    by (rule r_into_rtranclp, rule move_pool, rule S'(1))
  have "''node1'' \<in> later S' \<or> (\<exists>g. called_back ''node1'' (calling S' g)) \<or>
      (\<exists>wk \<in> set (workers S'). before_merge ''node1'' wk) \<or>
      seen S' ''node1'' = Some (revision (agg (ctl S')))"
    using no_lost_update [OF listq.work_queue_axioms S(1,2) _ _ run] S(4) S'(3)
    by (simp add: example_queue_def mirrorKey_def list_queue_api_def)
  moreover have "(pool_step list_queue_api ?ok)\<^sup>*\<^sup>* (Run_pool c (example_queue [''node1''])) S'"
    using S(2) move_pool [OF S'(1)] by (rule rtranclp.rtrancl_into_rtrancl)
  ultimately show ?thesis using S(1) S'(2,3) by (intro exI [of _ c] exI [of _ S']) simp
qed

theorem run_shuts_down_witness:
  "\<exists>c S0 S. (pool_step list_queue_api (\<lambda>_ :: mem env. True))\<^sup>*\<^sup>* (Run_pool c (example_queue [''node1''])) S0 \<and> phase S0 = Draining \<and>
     drain_work (\<lambda>q. set (lq_waiting q)) S0 = 14 \<and> workers S = [Picked ''node1'', Idle, Idle, Idle] \<and>
     phase S = Draining \<and> (\<exists>S'. move list_queue_api (\<lambda>_ :: mem env. True) S S')"
proof -
  let ?ok = "\<lambda>_ :: mem env. True"
  obtain c S where S: "(pool_step list_queue_api ?ok)\<^sup>*\<^sup>* (Run_pool c (example_queue [''node1''])) S" "phase S = Working"
    "workers S = replicate 4 Idle" "wqueue S = example_queue [''node1'']" "\<not> ticking S"
    using example_working [of ?ok "[''node1'']"] by metis
  let ?S1 = "S\<lparr>stopped := True\<rparr>"
  let ?S0 = "?S1\<lparr>phase := Draining, wqueue := wq_ShutDown list_queue_api (wqueue ?S1)\<rparr>"
  have "move list_queue_api ?ok ?S1 ?S0" by (rule move.drain) (simp_all add: S)
  moreover have "disturb list_queue_api ?ok S ?S1" by (rule disturb.stop)
  ultimately have run: "(pool_step list_queue_api ?ok)\<^sup>*\<^sup>* (Run_pool c (example_queue [''node1''])) ?S0"
    using S(1) by (meson disturb_pool move_pool rtranclp.rtrancl_into_rtrancl)
  have q: "wqueue ?S0 = (example_queue [''node1''])\<lparr>lq_shut := True\<rparr>" "workers ?S0 = replicate 4 Idle" "phase ?S0 = Draining"
    by (simp_all add: S list_queue_api_def)
  obtain S2 where S2: "move list_queue_api ?ok ?S0 S2" "workers S2 = [Picked ''node1'', Idle, Idle, Idle]" "phase S2 = phase ?S0"
    using example_get [OF q(2,1), where Ok = ?ok] by metis
  have "(((disturb list_queue_api ?ok)\<^sup>*\<^sup>* OO move list_queue_api ?ok) ^^ 1) ?S0 S2"
    using S2(1) by auto
  from run_shuts_down [OF listq.work_queue_axioms run q(3) TrueI this] S2(2,3)
  have "phase S2 = Draining \<and> (\<exists>S'. move list_queue_api ?ok S2 S')" by simp
  moreover have "drain_work (\<lambda>q. set (lq_waiting q)) ?S0 = 14"
    by (simp add: drain_work_def S list_queue_api_def example_queue_def sum_list_replicate)
  ultimately show ?thesis using run q(3) S2(2) by blast
qed

end
