(* ===== verification/Election.thy ===== *)
theory Election
  imports Manager Progress
begin

text \<open>
  \<^verbatim>\<open>runWithLeaderElection\<close>, \<^verbatim>\<open>run\<close> and \<^verbatim>\<open>main\<close> of \<^verbatim>\<open>cmd/manager/main.go\<close>. The goroutine that waits for
  client-go's elector and the one that runs the controller once leadership is acquired share a flag, a
  channel and two contexts; \<open>elect\<close> interleaves their steps with the signal handler and with the
  elector, of which only the documented behaviour is used: it tries to acquire the lease until its
  context ends, calls \<^verbatim>\<open>OnStartedLeading\<close> in a new goroutine after acquiring it, and returns when the
  context ends or the lease is lost. What the controller may return is the contract \<open>controller_run\<close>,
  which \<open>System\<close> meets.
\<close>

section \<open>Errors\<close>

definition errLeaderElectionLost :: error where
  "errLeaderElectionLost = ErrMsg ''leader election lost''"

fun is_canceled :: "error \<Rightarrow> bool" where
  \<comment> \<open>\<open>errors.Is(err, context.Canceled)\<close>\<close>
  "is_canceled (ErrCanceled m) = True"
| "is_canceled (ErrApi m e) = (e = ApiCanceled)"
| "is_canceled (ErrJoined es) = (\<exists>e \<in> set es. is_canceled e)"
| "is_canceled _ = False"

section \<open>What the controller may return\<close>

definition Run_returns ::
  "'q queue_api \<Rightarrow> ('s env \<Rightarrow> bool) \<Rightarrow> 's controller \<Rightarrow> 'q \<Rightarrow> bool \<Rightarrow> error option \<Rightarrow> bool" where
  \<comment> \<open>\<open>ctrl.Run\<close> can return this with its context done or not\<close>
  "Run_returns Q Ok c q ended r \<longleftrightarrow>
     (\<exists>S. (pool_step Q Ok)\<^sup>*\<^sup>* (Run_pool c q) S \<and> phase S = Returned r \<and> stopped S = ended)"

locale controller_run =
  fixes R :: "bool \<Rightarrow> error option \<Rightarrow> bool"   \<comment> \<open>context done, returned error\<close>
  assumes nil_when_done: "R ended None \<Longrightarrow> ended"

lemma Run_returns_contract:
  assumes "work_queue Q waiting active"
  shows "controller_run (Run_returns Q Ok c q)"
proof
  fix ended
  assume "Run_returns Q Ok c q ended None"
  then obtain S where "(pool_step Q Ok)\<^sup>*\<^sup>* (Run_pool c q) S" "phase S = Returned None" "stopped S = ended"
    by (auto simp: Run_returns_def)
  with work_queue.stop_seen_reachable [OF assms] show ended by (fastforce simp: stop_seen_def)
qed

interpretation example_run: controller_run
  "Run_returns list_queue_api (\<lambda>_. True) (example_controller mem_empty) (example_queue [])"
  by (rule Run_returns_contract [OF listq.work_queue_axioms])

section \<open>The election\<close>

datatype waiter =
    Acquiring
  | Renewing
  | ElectorDone
  | AwaitRun
  | Decided "error option"

datatype leader =
    NotStarted
  | Spawned
  | RunActive
  | Sending "error option"
  | Canceling
  | LeaderDone

record election =
  ctx_done :: bool        \<comment> \<open>a signal has ended the process context\<close>
  canceled :: bool        \<comment> \<open>\<open>cancel\<close> of the election context was called\<close>
  lead_done :: bool       \<comment> \<open>the context given to \<open>OnStartedLeading\<close> has ended\<close>
  waiter_at :: waiter
  leader_at :: leader
  leading :: bool
  runErrCh :: "error option option"
  run_result :: "error option option"   \<comment> \<open>what \<open>ctrl.Run\<close> returned\<close>
  lease_lost :: bool                     \<comment> \<open>the elector gave up renewing\<close>

definition election_start :: election where
  "election_start = \<lparr>ctx_done = False, canceled = False, lead_done = False, waiter_at = Acquiring,
     leader_at = NotStarted, leading = False, runErrCh = None, run_result = None, lease_lost = False\<rparr>"

definition leadership_result :: "error option \<Rightarrow> bool \<Rightarrow> error option" where
  \<comment> \<open>the end of \<open>runWithLeaderElection\<close>, from \<open>runErr\<close> and \<open>ctx.Err()\<close>\<close>
  "leadership_result runErr ended =
     (case runErr of
        Some e \<Rightarrow> if \<not> is_canceled e then Some e else if ended then None else Some errLeaderElectionLost
      | None \<Rightarrow> if ended then None else Some errLeaderElectionLost)"

inductive elect :: "(bool \<Rightarrow> error option \<Rightarrow> bool) \<Rightarrow> election \<Rightarrow> election \<Rightarrow> bool" for R where
  signal: "elect R S (S\<lparr>ctx_done := True\<rparr>)"
| acquire: "waiter_at S = Acquiring \<Longrightarrow> elect R S (S\<lparr>waiter_at := Renewing, leader_at := Spawned\<rparr>)"
| give_up: "waiter_at S = Acquiring \<Longrightarrow> ctx_done S \<or> canceled S \<Longrightarrow> elect R S (S\<lparr>waiter_at := ElectorDone\<rparr>)"
| renew_end: "waiter_at S = Renewing \<Longrightarrow> ctx_done S \<or> canceled S \<Longrightarrow>
    elect R S (S\<lparr>waiter_at := ElectorDone, lead_done := True\<rparr>)"
| renew_lost: "waiter_at S = Renewing \<Longrightarrow>
    elect R S (S\<lparr>waiter_at := ElectorDone, lead_done := True, lease_lost := True\<rparr>)"
| started: "leader_at S = Spawned \<Longrightarrow> elect R S (S\<lparr>leader_at := RunActive, leading := True\<rparr>)"
| run_ends: "leader_at S = RunActive \<Longrightarrow> R (ctx_done S \<or> canceled S \<or> lead_done S) r \<Longrightarrow>
    elect R S (S\<lparr>leader_at := Sending r, run_result := Some r\<rparr>)"
| send: "leader_at S = Sending r \<Longrightarrow> elect R S (S\<lparr>leader_at := Canceling, runErrCh := Some r\<rparr>)"
| cancel: "leader_at S = Canceling \<Longrightarrow> elect R S (S\<lparr>leader_at := LeaderDone, canceled := True\<rparr>)"
| never_led: "waiter_at S = ElectorDone \<Longrightarrow> \<not> leading S \<Longrightarrow> elect R S (S\<lparr>waiter_at := Decided None\<rparr>)"
| select_empty: "waiter_at S = ElectorDone \<Longrightarrow> leading S \<Longrightarrow> runErrCh S = None \<Longrightarrow>
    elect R S (S\<lparr>waiter_at := AwaitRun\<rparr>)"
| receive: "waiter_at S = ElectorDone \<or> waiter_at S = AwaitRun \<Longrightarrow> leading S \<Longrightarrow> runErrCh S = Some r \<Longrightarrow>
    elect R S (S\<lparr>waiter_at := Decided (leadership_result r (ctx_done S)), runErrCh := None\<rparr>)"
| timeout: "waiter_at S = AwaitRun \<Longrightarrow>
    elect R S (S\<lparr>waiter_at := Decided (leadership_result None (ctx_done S))\<rparr>)"

definition waiting_elector :: "election \<Rightarrow> bool" where
  "waiting_elector S \<longleftrightarrow> waiter_at S = ElectorDone \<or> waiter_at S = AwaitRun"

definition election_inv :: "election \<Rightarrow> bool" where
  "election_inv S \<longleftrightarrow>
     (waiter_at S = Acquiring \<longrightarrow> leader_at S = NotStarted) \<and> (waiter_at S = Renewing \<longrightarrow> leader_at S \<noteq> NotStarted) \<and>
     (waiter_at S = Acquiring \<or> waiter_at S = Renewing \<longrightarrow> \<not> lead_done S) \<and>
     (leading S \<longleftrightarrow> leader_at S \<noteq> NotStarted \<and> leader_at S \<noteq> Spawned) \<and>
     (canceled S \<longleftrightarrow> leader_at S = LeaderDone) \<and>
     (run_result S = None \<longleftrightarrow> leader_at S \<in> {NotStarted, Spawned, RunActive}) \<and>
     (\<forall>r. leader_at S = Sending r \<longrightarrow> run_result S = Some r) \<and>
     (leader_at S \<notin> {Canceling, LeaderDone} \<longrightarrow> runErrCh S = None) \<and>
     (leader_at S \<in> {Canceling, LeaderDone} \<and> (\<nexists>r. waiter_at S = Decided r) \<longrightarrow> runErrCh S = run_result S) \<and>
     (waiting_elector S \<and> leader_at S = NotStarted \<longrightarrow> ctx_done S) \<and>
     (lead_done S \<longrightarrow> ctx_done S \<or> lease_lost S \<or> canceled S) \<and>
     (waiter_at S = ElectorDone \<longrightarrow> ctx_done S \<or> lease_lost S \<or> canceled S) \<and>
     (waiter_at S = AwaitRun \<longrightarrow> leading S \<and> (ctx_done S \<or> lease_lost S)) \<and>
     (run_result S = Some None \<longrightarrow> ctx_done S \<or> lease_lost S)"

context controller_run
begin

lemma election_inv_step:
  assumes "elect R S S'" "election_inv S"
  shows "election_inv S'"
  using assms(1)
proof cases
  case (run_ends r)
  have "r = None \<longrightarrow> ctx_done S \<or> lease_lost S"
    using nil_when_done [of "ctx_done S \<or> canceled S \<or> lead_done S"] run_ends assms(2)
    by (auto simp: election_inv_def)
  with run_ends assms(2) show ?thesis unfolding election_inv_def waiting_elector_def by simp blast
next
  case signal
  with assms(2) show ?thesis unfolding election_inv_def waiting_elector_def by (simp; blast)
next
  case acquire
  with assms(2) show ?thesis unfolding election_inv_def waiting_elector_def by (simp; blast)
next
  case give_up
  with assms(2) show ?thesis unfolding election_inv_def waiting_elector_def by (simp; blast)
next
  case renew_end
  with assms(2) show ?thesis unfolding election_inv_def waiting_elector_def by (simp; blast)
next
  case renew_lost
  with assms(2) show ?thesis unfolding election_inv_def waiting_elector_def by (simp; blast)
next
  case started
  with assms(2) show ?thesis unfolding election_inv_def waiting_elector_def by (simp; blast)
next
  case (send r)
  with assms(2) show ?thesis unfolding election_inv_def waiting_elector_def by (simp; blast)
next
  case cancel
  with assms(2) show ?thesis unfolding election_inv_def waiting_elector_def by (simp; blast)
next
  case never_led
  with assms(2) show ?thesis unfolding election_inv_def waiting_elector_def by (simp; blast)
next
  case select_empty
  then have "leader_at S \<in> {Canceling, LeaderDone} \<Longrightarrow> run_result S = None"
    "run_result S = None \<Longrightarrow> leader_at S \<in> {NotStarted, Spawned, RunActive}"
    using assms(2) unfolding election_inv_def by simp_all
  then have "leader_at S \<noteq> LeaderDone" "leader_at S \<noteq> Canceling" by auto
  with select_empty assms(2) show ?thesis unfolding election_inv_def waiting_elector_def by (simp; blast)
next
  case (receive r)
  with assms(2) show ?thesis unfolding election_inv_def waiting_elector_def by (simp; blast)
next
  case timeout
  with assms(2) show ?thesis unfolding election_inv_def waiting_elector_def by (simp; blast)
qed

lemma election_inv_reachable: "(elect R)\<^sup>*\<^sup>* election_start S \<Longrightarrow> election_inv S"
proof (induction rule: rtranclp_induct)
  case base
  show ?case by (simp add: election_inv_def election_start_def waiting_elector_def)
next
  case (step T U)
  then show ?case by (blast intro: election_inv_step)
qed

end

lemma election_facts:
  assumes "election_inv S"
  shows "leading S \<longleftrightarrow> leader_at S \<noteq> NotStarted \<and> leader_at S \<noteq> Spawned"
    and "canceled S \<longleftrightarrow> leader_at S = LeaderDone"
    and "leader_at S \<notin> {Canceling, LeaderDone} \<Longrightarrow> runErrCh S = None"
    and "leader_at S \<in> {Canceling, LeaderDone} \<Longrightarrow> waiting_elector S \<Longrightarrow> runErrCh S = run_result S"
    and "leader_at S \<in> {Canceling, LeaderDone} \<Longrightarrow> run_result S \<noteq> None"
    and "waiting_elector S \<Longrightarrow> leader_at S = NotStarted \<Longrightarrow> ctx_done S"
    and "waiting_elector S \<Longrightarrow> \<not> ctx_done S \<Longrightarrow> \<not> lease_lost S \<Longrightarrow> canceled S \<and> waiter_at S = ElectorDone"
    and "waiter_at S = AwaitRun \<Longrightarrow> leading S"
    and "run_result S = Some None \<Longrightarrow> ctx_done S \<or> lease_lost S"
proof -
  have c: "leading S \<longleftrightarrow> leader_at S \<noteq> NotStarted \<and> leader_at S \<noteq> Spawned"
    "canceled S \<longleftrightarrow> leader_at S = LeaderDone"
    "leader_at S \<notin> {Canceling, LeaderDone} \<longrightarrow> runErrCh S = None"
    "leader_at S \<in> {Canceling, LeaderDone} \<and> (\<nexists>r. waiter_at S = Decided r) \<longrightarrow> runErrCh S = run_result S"
    "run_result S = None \<longleftrightarrow> leader_at S \<in> {NotStarted, Spawned, RunActive}"
    "waiting_elector S \<and> leader_at S = NotStarted \<longrightarrow> ctx_done S"
    "waiter_at S = ElectorDone \<longrightarrow> ctx_done S \<or> lease_lost S \<or> canceled S"
    "waiter_at S = AwaitRun \<longrightarrow> leading S \<and> (ctx_done S \<or> lease_lost S)"
    "run_result S = Some None \<longrightarrow> ctx_done S \<or> lease_lost S"
    using assms unfolding election_inv_def by - (elim conjE, assumption)+
  show "leading S \<longleftrightarrow> leader_at S \<noteq> NotStarted \<and> leader_at S \<noteq> Spawned" by (rule c)
  show "canceled S \<longleftrightarrow> leader_at S = LeaderDone" by (rule c)
  show "leader_at S \<notin> {Canceling, LeaderDone} \<Longrightarrow> runErrCh S = None" using c(3) by blast
  show "leader_at S \<in> {Canceling, LeaderDone} \<Longrightarrow> waiting_elector S \<Longrightarrow> runErrCh S = run_result S"
    using c(4) by (auto simp: waiting_elector_def)
  show "leader_at S \<in> {Canceling, LeaderDone} \<Longrightarrow> run_result S \<noteq> None" using c(5) by auto
  show "waiting_elector S \<Longrightarrow> leader_at S = NotStarted \<Longrightarrow> ctx_done S" using c(6) by blast
  show "waiting_elector S \<Longrightarrow> \<not> ctx_done S \<Longrightarrow> \<not> lease_lost S \<Longrightarrow> canceled S \<and> waiter_at S = ElectorDone"
    using c(7,8) by (auto simp: waiting_elector_def)
  show "waiter_at S = AwaitRun \<Longrightarrow> leading S" using c(8) by blast
  show "run_result S = Some None \<Longrightarrow> ctx_done S \<or> lease_lost S" using c(9) by blast
qed

lemma decided_cases:
  assumes "elect R S S'" "waiting_elector S" "waiter_at S' = Decided r" "election_inv S"
  obtains (never_led) "\<not> leading S" "r = None" "waiter_at S = ElectorDone"
  | (received) x where "leading S" "run_result S = Some x" "r = leadership_result x (ctx_done S)"
  | (timeout) "leading S" "waiter_at S = AwaitRun" "r = leadership_result None (ctx_done S)"
  using assms(1)
proof cases
  case (receive x)
  then have "leader_at S \<in> {Canceling, LeaderDone}" using election_facts(3) [OF assms(4)] by force
  then have "run_result S = Some x" using receive election_facts(4) [OF assms(4) _ assms(2)] by simp
  with receive assms(3) show thesis by (intro received [of x]) auto
next
  case timeout
  with assms(3) that(3) election_facts(8) [OF assms(4)] show thesis by simp
qed (use assms(2,3) never_led in \<open>auto simp: waiting_elector_def\<close>)

lemma decided_outcome:
  assumes inv: "election_inv S" and step: "elect R S S'" "waiting_elector S" "waiter_at S' = Decided r"
  shows "r = None \<Longrightarrow> ctx_done S \<or> \<not> leading S \<and> lease_lost S"
    and "r = Some e \<Longrightarrow> leading S \<and>
       (run_result S = Some (Some e) \<and> \<not> is_canceled e \<or> e = errLeaderElectionLost \<and> \<not> ctx_done S)"
    and "leading S \<Longrightarrow> \<not> ctx_done S \<Longrightarrow> \<not> lease_lost S \<Longrightarrow>
       \<exists>e. run_result S = Some (Some e) \<and> r = Some (if is_canceled e then errLeaderElectionLost else e)"
proof -
  note facts = election_facts [OF inv]
  have "(r = None \<longrightarrow> ctx_done S \<or> \<not> leading S \<and> lease_lost S) \<and>
    (r = Some e \<longrightarrow> leading S \<and>
       (run_result S = Some (Some e) \<and> \<not> is_canceled e \<or> e = errLeaderElectionLost \<and> \<not> ctx_done S)) \<and>
    (leading S \<and> \<not> ctx_done S \<and> \<not> lease_lost S \<longrightarrow>
       (\<exists>e. run_result S = Some (Some e) \<and> r = Some (if is_canceled e then errLeaderElectionLost else e)))"
    using step inv
  proof (cases rule: decided_cases)
    case never_led
    have "ctx_done S \<or> lease_lost S" using facts(1,2,7) step(2) never_led(1) by auto
    with never_led show ?thesis by simp
  next
    case (received x)
    show ?thesis
    proof (cases x)
      case None
      with received facts(9) show ?thesis by (auto simp: leadership_result_def split: if_splits)
    next
      case (Some e)
      with received show ?thesis by (auto simp: leadership_result_def split: if_splits)
    qed
  next
    case timeout
    then have "ctx_done S \<or> lease_lost S" using facts(7) [OF step(2)] by auto
    with timeout show ?thesis by (auto simp: leadership_result_def split: if_splits)
  qed
  then show "r = None \<Longrightarrow> ctx_done S \<or> \<not> leading S \<and> lease_lost S"
    "r = Some e \<Longrightarrow> leading S \<and>
       (run_result S = Some (Some e) \<and> \<not> is_canceled e \<or> e = errLeaderElectionLost \<and> \<not> ctx_done S)"
    "leading S \<Longrightarrow> \<not> ctx_done S \<Longrightarrow> \<not> lease_lost S \<Longrightarrow>
       \<exists>e. run_result S = Some (Some e) \<and> r = Some (if is_canceled e then errLeaderElectionLost else e)"
    by blast+
qed

text \<open>C19. What \<^verbatim>\<open>runWithLeaderElection\<close> reports. However the elector, the controller and the signal
  interleave, when it decides: it returns nil only after a signal, or if the lease was lost before
  the controller was even started; an error it returns is the one the controller's \<^verbatim>\<open>Run\<close> returned,
  which is not a cancellation, or it says that leadership was lost, and then no signal had come;
  and if neither a signal nor the loss of the lease ended the election, the controller had failed,
  and its failure is what is reported, unless it is a cancellation, which counts as lost
  leadership.\<close>

theorem leadership_outcome:
  assumes "controller_run R" "(elect R)\<^sup>*\<^sup>* election_start S" "elect R S S'"
    and "waiting_elector S" "waiter_at S' = Decided r"
  shows "(r = None \<longrightarrow> ctx_done S \<or> \<not> leading S \<and> lease_lost S) \<and>
    (\<forall>e. r = Some e \<longrightarrow> leading S \<and>
       (run_result S = Some (Some e) \<and> \<not> is_canceled e \<or> e = errLeaderElectionLost \<and> \<not> ctx_done S)) \<and>
    (leading S \<and> \<not> ctx_done S \<and> \<not> lease_lost S \<longrightarrow>
       (\<exists>e. run_result S = Some (Some e) \<and> r = Some (if is_canceled e then errLeaderElectionLost else e)))"
  using decided_outcome [OF controller_run.election_inv_reachable [OF assms(1,2)] assms(3-5)] by blast

section \<open>The process\<close>

record lease_config =
  LeaseName :: string
  LeaseNamespace :: string
  Identity :: string
  ReleaseOnCancel :: bool
  LeaseDuration :: int
  RenewDeadline :: int
  RetryPeriod :: int

definition runWithLeaderElection ::
  "'k host \<Rightarrow> validators \<Rightarrow> (lease_config \<Rightarrow> string option) \<Rightarrow> leaderElectionOptions \<Rightarrow> string \<Rightarrow>
     error option \<Rightarrow> error option \<Rightarrow> error option" where
  \<comment> \<open>\<open>direct\<close> is what \<open>ctrl.Run\<close> returns without an election, \<open>elected\<close> what the election decides\<close>
  "runWithLeaderElection H V NewLeaderElector le namespace direct elected =
     (if \<not> enabled le then direct
      else if length (IsDNS1123Subdomain V (leaseName le)) > 0
      then Some (ErrInvalidName ''invalid leader election lease name'' (leaseName le) (IsDNS1123Subdomain V (leaseName le)))
      else
        let lock = \<lparr>LeaseName = leaseName le, LeaseNamespace = namespace, Identity = leaderElectionIdentity H,
              ReleaseOnCancel = False, LeaseDuration = leaseDuration le, RenewDeadline = renewDeadline le,
              RetryPeriod = retryPeriod le\<rparr>
        in case NewLeaderElector lock of
             Some m \<Rightarrow> Some (ErrMsg (''invalid leader election configuration: '' @ m))
           | None \<Rightarrow> elected)"

definition run ::
  "'k host \<Rightarrow> platform \<Rightarrow> (informer \<Rightarrow> error option) \<Rightarrow> (lease_config \<Rightarrow> string option) \<Rightarrow> 's \<Rightarrow> options \<Rightarrow>
     ('s controller \<Rightarrow> error option) \<Rightarrow> ('s controller \<Rightarrow> error option) \<Rightarrow> error option" where
  "run H P add NewLeaderElector w opts direct elected =
     (case resolveControllerConfig H (validation P) opts of
        Inl e \<Rightarrow> Some e
      | Inr cf \<Rightarrow>
          (case kubernetesClient H (kubeconfigPath opts) of
             Inl e \<Rightarrow> Some e
           | Inr _ \<Rightarrow>
               (case NewController P add cf w of
                  Inl e \<Rightarrow> Some e
                | Inr ctrl \<Rightarrow>
                    (case serveHealthProbes H (healthBindAddress opts) of
                       Inl e \<Rightarrow> Some e
                     | Inr _ \<Rightarrow>
                         (case runWithLeaderElection H (validation P) NewLeaderElector (leaderElection opts)
                                 (CfgNamespace cf) (direct ctrl) (elected ctrl) of
                            Some e \<Rightarrow> if is_canceled e then None else Some e
                          | None \<Rightarrow> None)))))"

definition main_exit ::
  "'k host \<Rightarrow> platform \<Rightarrow> (informer \<Rightarrow> error option) \<Rightarrow> (lease_config \<Rightarrow> string option) \<Rightarrow> 's \<Rightarrow> options \<Rightarrow>
     ('s controller \<Rightarrow> error option) \<Rightarrow> ('s controller \<Rightarrow> error option) \<Rightarrow> nat" where
  \<comment> \<open>the exit status of \<open>main\<close>; \<open>log.Fatal\<close> exits with 1\<close>
  "main_exit H P add NewLeaderElector w opts direct elected =
     (case setupLogger H (logLevel opts) of
        Inl _ \<Rightarrow> 1
      | Inr _ \<Rightarrow> (case run H P add NewLeaderElector w opts direct elected of Some _ \<Rightarrow> 1 | None \<Rightarrow> 0))"

definition may_decide :: "(bool \<Rightarrow> error option \<Rightarrow> bool) \<Rightarrow> bool \<Rightarrow> error option \<Rightarrow> bool" where
  \<comment> \<open>the election can end with this decision; the flag tells whether a signal had come, or the lease
      was lost before the controller started\<close>
  "may_decide R ended r \<longleftrightarrow> (\<exists>S S'. (elect R)\<^sup>*\<^sup>* election_start S \<and> elect R S S' \<and> waiting_elector S \<and>
     waiter_at S' = Decided r \<and> (ended \<longleftrightarrow> ctx_done S \<or> \<not> leading S \<and> lease_lost S))"

lemma may_decide_facts:
  assumes "controller_run R" "may_decide R ended r"
  shows "r = None \<Longrightarrow> ended" and "r = Some e \<Longrightarrow> \<not> is_canceled e"
proof -
  from assms(2) obtain S S' where S: "(elect R)\<^sup>*\<^sup>* election_start S" "elect R S S'" "waiting_elector S"
    "waiter_at S' = Decided r" "ended \<longleftrightarrow> ctx_done S \<or> \<not> leading S \<and> lease_lost S" by (auto simp: may_decide_def)
  note out = decided_outcome [OF controller_run.election_inv_reachable [OF assms(1) S(1)] S(2-4)]
  show "r = None \<Longrightarrow> ended" using out(1) S(5) by blast
  show "r = Some e \<Longrightarrow> \<not> is_canceled e" using out(2) [of e] by (auto simp: errLeaderElectionLost_def)
qed

lemma setupLogger_Inr: "(\<exists>l. setupLogger H level = Inr l) \<longleftrightarrow> (\<exists>lv. zerolog_ParseLevel H level = Inr lv \<and> lv \<noteq> NoLevel)"
  by (auto simp: setupLogger_def split: sum.splits)

lemma kubernetesClient_Inr:
  "(\<exists>k. kubernetesClient H path = Inr k) \<longleftrightarrow>
   (\<exists>rc k. ClientConfig H path = Inr rc \<and> NewForConfig H (rc\<lparr>QPS := - 1\<rparr>) = Inr k)"
  by (auto simp: kubernetesClient_def split: sum.splits)

lemma serveHealthProbes_Inr:
  "(\<exists>x. serveHealthProbes H addr = Inr x) \<longleftrightarrow> addr = [] \<or> (\<exists>l. listen_tcp H addr = Inr l)"
  by (auto simp: serveHealthProbes_def split: sum.splits)

definition election_lock :: "'k host \<Rightarrow> leaderElectionOptions \<Rightarrow> string \<Rightarrow> lease_config" where
  \<comment> \<open>the configuration handed to \<open>leaderelection.NewLeaderElector\<close>\<close>
  "election_lock H le namespace =
     \<lparr>LeaseName = leaseName le, LeaseNamespace = namespace, Identity = leaderElectionIdentity H,
      ReleaseOnCancel = False, LeaseDuration = leaseDuration le, RenewDeadline = renewDeadline le,
      RetryPeriod = retryPeriod le\<rparr>"

lemma run_None_iff:
  "run H P add NewLeaderElector w opts direct elected = None \<longleftrightarrow>
   (\<exists>cf ctrl r. resolveControllerConfig H (validation P) opts = Inr cf \<and>
      (\<exists>k. kubernetesClient H (kubeconfigPath opts) = Inr k) \<and> NewController P add cf w = Inr ctrl \<and>
      (\<exists>x. serveHealthProbes H (healthBindAddress opts) = Inr x) \<and>
      runWithLeaderElection H (validation P) NewLeaderElector (leaderElection opts) (CfgNamespace cf)
        (direct ctrl) (elected ctrl) = r \<and> (\<forall>e. r = Some e \<longrightarrow> is_canceled e))"
  by (auto simp: run_def split: sum.splits option.splits)

lemma runWithLeaderElection_ends:
  assumes "\<not> enabled le \<Longrightarrow> direct = None \<Longrightarrow> ended"
    and "enabled le \<Longrightarrow> elected = None \<Longrightarrow> ended" "\<And>e. enabled le \<Longrightarrow> elected = Some e \<Longrightarrow> \<not> is_canceled e"
  shows "(\<forall>e. runWithLeaderElection H V NewLeaderElector le ns direct elected = Some e \<longrightarrow> is_canceled e) \<longleftrightarrow>
    (if enabled le
     then IsDNS1123Subdomain V (leaseName le) = [] \<and> NewLeaderElector (election_lock H le ns) = None \<and> elected = None \<and> ended
     else direct = None \<and> ended \<or> (\<exists>e. direct = Some e \<and> is_canceled e))"
  using assms
  by (auto simp: runWithLeaderElection_def election_lock_def Let_def split: option.splits if_splits)

text \<open>C21. The exit status of the process, exactly. \<^verbatim>\<open>main\<close> exits with status 0 if and only if the log
  level is valid, the options resolve to a configuration, a client can be made for the cluster, the
  controller accepts the configuration, the probe server is off or its address can be listened on, and
  then: with leader election, the lease name is well-formed, client-go accepts the lease and its timings,
  and the election ended without error, which it does only when the process was asked to stop (or, in
  the one race the code leaves, when the lease was lost before the elected controller had begun);
  without it, \<^verbatim>\<open>Run\<close> returned nil, which it does only when asked to stop, or reported a
  cancellation. In every other case, so for each failed check, a failed controller and lost leadership,
  the status is 1.\<close>

theorem main_exit_exact:
  assumes "work_queue Q waiting active"
    and "\<And>ctrl. \<not> enabled (leaderElection opts) \<Longrightarrow> Run_returns Q Ok ctrl q ended (direct ctrl)"
    and "\<And>ctrl. enabled (leaderElection opts) \<Longrightarrow> may_decide (Run_returns Q Ok ctrl q) ended (elected ctrl)"
  shows "main_exit H P add NewLeaderElector w opts direct elected =
     (if (\<exists>lv. zerolog_ParseLevel H (logLevel opts) = Inr lv \<and> lv \<noteq> NoLevel) \<and>
         (\<exists>cf ctrl. resolveControllerConfig H (validation P) opts = Inr cf \<and>
            (\<exists>rc k. ClientConfig H (kubeconfigPath opts) = Inr rc \<and> NewForConfig H (rc\<lparr>QPS := - 1\<rparr>) = Inr k) \<and>
            NewController P add cf w = Inr ctrl \<and>
            (healthBindAddress opts = [] \<or> (\<exists>l. listen_tcp H (healthBindAddress opts) = Inr l)) \<and>
            (if enabled (leaderElection opts)
             then IsDNS1123Subdomain (validation P) (leaseName (leaderElection opts)) = [] \<and>
                  NewLeaderElector (election_lock H (leaderElection opts) (CfgNamespace cf)) = None \<and>
                  elected ctrl = None \<and> ended
             else direct ctrl = None \<and> ended \<or> (\<exists>e. direct ctrl = Some e \<and> is_canceled e)))
      then 0 else 1)"
proof -
  have R: "controller_run (Run_returns Q Ok ctrl q)" for ctrl by (rule Run_returns_contract [OF assms(1)])
  have ends: "(\<forall>e. runWithLeaderElection H (validation P) NewLeaderElector (leaderElection opts) (CfgNamespace cf)
        (direct ctrl) (elected ctrl) = Some e \<longrightarrow> is_canceled e) \<longleftrightarrow>
      (if enabled (leaderElection opts)
       then IsDNS1123Subdomain (validation P) (leaseName (leaderElection opts)) = [] \<and>
            NewLeaderElector (election_lock H (leaderElection opts) (CfgNamespace cf)) = None \<and>
            elected ctrl = None \<and> ended
       else direct ctrl = None \<and> ended \<or> (\<exists>e. direct ctrl = Some e \<and> is_canceled e))" for cf ctrl
    using assms(2) [of ctrl] controller_run.nil_when_done [OF R, of ctrl ended]
      may_decide_facts [OF R assms(3), of ctrl]
    by (intro runWithLeaderElection_ends) auto
  have "main_exit H P add NewLeaderElector w opts direct elected =
      (if (\<exists>l. setupLogger H (logLevel opts) = Inr l) \<and> run H P add NewLeaderElector w opts direct elected = None
       then 0 else 1)"
    by (auto simp: main_exit_def split: sum.splits option.splits)
  then show ?thesis
    unfolding setupLogger_Inr run_None_iff kubernetesClient_Inr serveHealthProbes_Inr
    by (simp add: ends)
qed

section \<open>Examples\<close>

abbreviation example_R :: "bool \<Rightarrow> error option \<Rightarrow> bool" where
  "example_R \<equiv> Run_returns list_queue_api (\<lambda>_. True) (example_controller mem_empty) (example_queue [])"

theorem leadership_outcome_witness:
  "\<exists>S S' r. (elect example_R)\<^sup>*\<^sup>* election_start S \<and> elect example_R S S' \<and> waiter_at S' = Decided r \<and>
     leading S \<and> lease_lost S \<and> \<not> ctx_done S \<and> r = Some errLeaderElectionLost"
proof -
  let ?S1 = "election_start\<lparr>waiter_at := Renewing, leader_at := Spawned\<rparr>"
  let ?S2 = "?S1\<lparr>leader_at := RunActive, leading := True\<rparr>"
  let ?S3 = "?S2\<lparr>waiter_at := ElectorDone, lead_done := True, lease_lost := True\<rparr>"
  let ?S4 = "?S3\<lparr>waiter_at := AwaitRun\<rparr>"
  let ?S5 = "?S4\<lparr>waiter_at := Decided (leadership_result None (ctx_done ?S4))\<rparr>"
  have steps: "elect example_R election_start ?S1" "elect example_R ?S1 ?S2" "elect example_R ?S2 ?S3"
    "elect example_R ?S3 ?S4" and last: "elect example_R ?S4 ?S5"
    by (rule elect.acquire elect.started elect.renew_lost elect.select_empty elect.timeout;
        simp add: election_start_def)+
  then have run: "(elect example_R)\<^sup>*\<^sup>* election_start ?S4"
    by (meson converse_rtranclp_into_rtranclp rtranclp.rtrancl_refl)
  have at: "waiting_elector ?S4" "waiter_at ?S5 = Decided (leadership_result None False)" "leading ?S4" "\<not> ctx_done ?S4"
    "run_result ?S4 = None" "lease_lost ?S4"
    by (simp_all add: waiting_elector_def election_start_def)
  have "leadership_result None False = Some errLeaderElectionLost"
    using leadership_outcome [OF example_run.controller_run_axioms run last at(1,2)] at(3-5)
    by (cases "leadership_result None False") auto
  with run last at show ?thesis by (intro exI [of _ ?S4] exI [of _ ?S5]) simp
qed

definition example_host :: "unit host" where
  "example_host = \<lparr>os_Getenv = (\<lambda>_. []), os_ReadFile = (\<lambda>_. Inl ''not found''), os_Hostname = Inr ''manager'', os_Getpid = 7,
     stdout_is_terminal = False, zerolog_ParseLevel = (\<lambda>s. if s = ''info'' then Inr (Level 1) else Inl ''unknown''),
     ClientConfig = (\<lambda>_. Inr \<lparr>QPS = 0, Server = ''api''\<rparr>), NewForConfig = (\<lambda>_. Inr ()), listen_tcp = (\<lambda>_. Inr ())\<rparr>"

definition example_opts :: options where
  "example_opts = in_cfg (\<lambda>cf. cf\<lparr>CfgNamespace := ''system''\<rparr>) parseFlags_defaults"

lemma example_opts_parsed: "parseFlags [(''namespace'', StringV ''system'')] = Some example_opts"
  by (simp add: parseFlags_def flag_vars_def example_opts_def)

lemma example_exit: "main_exit example_host example_platform (\<lambda>_. None) (\<lambda>_. None) mem_empty example_opts (\<lambda>_. None) (\<lambda>_. None) = 0"
proof -
  have opts: "leaderElection example_opts = leaderElection parseFlags_defaults" "kubeconfigPath example_opts = []"
    "healthBindAddress example_opts = '':8081''" "logLevel example_opts = ''info''" "externalEndpoints example_opts = []"
    "loadBalancerMode example_opts = ''none''" "imagePullPolicy example_opts = ''IfNotPresent''"
    by (simp_all add: example_opts_def in_cfg_def parseFlags_defaults_def)
  let ?d = "Deploy (opt_controller example_opts)"
  let ?cf = "(opt_controller example_opts)\<lparr>Deploy := ?d\<lparr>ImagePullPolicy := ''IfNotPresent''\<rparr>\<rparr>"
  have ns: "CfgNamespace (opt_controller example_opts) = ''system''" "ExternalEndpoints (opt_controller example_opts) = []"
    by (simp_all add: example_opts_def in_cfg_def parseFlags_defaults_def)
  have cf: "resolveControllerConfig example_host documented_validators example_opts = Inr ?cf"
    by (simp add: resolveControllerConfig_def opts ns parseExternalEndpoints_def resolveNamespace_def Let_def)
  have "\<exists>r. validateConfig example_platform ?cf = Inr r"
    by (simp add: validateConfig_def example_platform_def Validate_def validate_names_def ValidateName_def
        example_opts_def in_cfg_def parseFlags_defaults_def
        dv.dns1123_subdomain_check dv.dns1123_label_check name_syntax_defs errors_Join_def List.map_filter_def)
  then obtain cf' sel where v: "validateConfig example_platform ?cf = Inr (cf', sel)" by (metis prod.collapse)
  have "fst (setupInformers (\<lambda>_. None) c) = None" for c
    using errors_Join_None [of "[None, None, None, None, None]"]
    by (cases "ExternalEnable c") (simp_all add: setupInformers_def register_def)
  then obtain ctrl where ctrl: "NewController example_platform (\<lambda>_. None) ?cf mem_empty = Inr ctrl"
    by (simp add: NewController_def v Let_def)
  have "IsDNS1123Subdomain documented_validators ''ckic-manager-leader'' = []"
    by (simp add: dv.dns1123_subdomain_check name_syntax_defs)
  then show ?thesis
    using cf ctrl
    by (simp add: main_exit_def run_def setupLogger_def opts example_platform_def kubernetesClient_def serveHealthProbes_def
        runWithLeaderElection_def parseFlags_defaults_def example_host_def Let_def)
qed

theorem main_exit_exact_witness:
  "main_exit example_host example_platform (\<lambda>_. None) (\<lambda>_. None) mem_empty example_opts (\<lambda>_. None) (\<lambda>_. None) = 0 \<and>
   main_exit example_host example_platform (\<lambda>_. None) (\<lambda>_. Some ''bad timings'') mem_empty example_opts (\<lambda>_. None) (\<lambda>_. None) = 1 \<and>
   main_exit (example_host\<lparr>listen_tcp := (\<lambda>_. Inl ''in use'')\<rparr>) example_platform (\<lambda>_. None) (\<lambda>_. None) mem_empty
     example_opts (\<lambda>_. None) (\<lambda>_. None) = 1"
proof -
  have le: "enabled (leaderElection example_opts)" "healthBindAddress example_opts \<noteq> []"
    by (simp_all add: example_opts_def in_cfg_def parseFlags_defaults_def)
  have decide: "may_decide R True None" for R
  proof -
    let ?S1 = "election_start\<lparr>ctx_done := True\<rparr>"
    let ?S2 = "?S1\<lparr>waiter_at := ElectorDone\<rparr>"
    let ?S3 = "?S2\<lparr>waiter_at := Decided None\<rparr>"
    have "elect R election_start ?S1" "elect R ?S1 ?S2" and last: "elect R ?S2 ?S3"
      by (rule elect.signal elect.give_up elect.never_led; simp add: election_start_def)+
    then have "(elect R)\<^sup>*\<^sup>* election_start ?S2" by (meson converse_rtranclp_into_rtranclp rtranclp.rtrancl_refl)
    with last show ?thesis unfolding may_decide_def
      by (intro exI [of _ ?S2] exI [of _ ?S3]) (simp add: waiting_elector_def)
  qed
  note exact = main_exit_exact [OF listq.work_queue_axioms, of example_opts "\<lambda>_. True" "example_queue []" True "\<lambda>_. None" "\<lambda>_. None"]
  have "main_exit example_host example_platform (\<lambda>_. None) (\<lambda>_. Some ''bad timings'') mem_empty example_opts (\<lambda>_. None) (\<lambda>_. None) = 1"
    by (subst exact) (use le decide in auto)
  moreover have "main_exit (example_host\<lparr>listen_tcp := (\<lambda>_. Inl ''in use'')\<rparr>) example_platform (\<lambda>_. None) (\<lambda>_. None) mem_empty
     example_opts (\<lambda>_. None) (\<lambda>_. None) = 1"
    by (subst exact) (use le decide in auto)
  ultimately show ?thesis using example_exit by blast
qed

end
