(* ===== verification/Spec2Isabelle.thy ===== *)
theory Spec2Isabelle
  imports Election
begin

text \<open>
  \<^bold>\<open>A verification of CKIC\<close>, the Caddy controller for Kubernetes nodes. CKIC runs one Caddy per
  selected node, keeps the node's Deployment, Service and pre-pull pod in place, merges a base
  Caddyfile with fragments from ConfigMaps of other namespaces, loads the merge into every Caddy
  through its admin API, and publishes the last configuration a Caddy accepted in a boot ConfigMap
  that new Caddy pods start from.

  \<^bold>\<open>Parts and theories.\<close> The theories follow the packages, lower ones first.
  \<^item> \<open>Prelude\<close>: Go strings and maps and the standard-library functions the sources call; Go maps
    are association lists behind the contract \<open>go_map\<close>. \<open>Sha256\<close>: \<^verbatim>\<open>crypto/sha256\<close> and
    \<^verbatim>\<open>encoding/hex\<close>, in full, on 32-bit words.
  \<^item> \<open>Kube\<close>: Kubernetes objects (the fields the sources read), apply configurations (the fields
    they set), errors, the API server as a record of calls on an arbitrary state, the informer
    caches as a record of lookups, and what the code relies on of the server as the locales
    \<open>object_store\<close>, \<open>uid_precondition\<close>, \<open>config_store\<close>, \<open>object_apply\<close> and \<open>kube_server\<close>. \<open>Kube_Mem\<close>: an
    in-memory server with injected failures that satisfies them; witnesses run on it.
  \<^item> \<open>Naming\<close> (\<^verbatim>\<open>pkg/caddy/naming.go\<close>): names and labels. Service names are valid and do not
    clash.
  \<^item> \<open>Admin\<close> (\<^verbatim>\<open>pkg/caddy/admin.go\<close>): adapt, check and load. The manager never sends a
    configuration that would lock it out of the admin endpoint; what counts as rejected.
  \<^item> \<open>Podspec\<close> and \<open>Deployer\<close> (\<^verbatim>\<open>pkg/caddy/deployment.go\<close>): options, the applied objects, their
    hash, apply, list and find, and the status texts. \<open>Prepull\<close> (\<^verbatim>\<open>pkg/caddy/prepull.go\<close>),
    \<open>Cleanup\<close> (\<^verbatim>\<open>pkg/caddy/cleanup.go\<close>): exactly the node's objects are removed.
  \<^item> \<open>Aggregator\<close> (\<^verbatim>\<open>pkg/aggregator/aggregator.go\<close>): merge, revisions (64-bit, wrapping),
    acceptance, the boot ConfigMap. Acceptance is stated once for the contract \<open>acceptor\<close>.
  \<^item> \<open>Ctrl_State\<close>, \<open>Rollout\<close>, \<open>Reconcile\<close>, \<open>Controller\<close> (\<^verbatim>\<open>pkg/controller\<close>: \<^verbatim>\<open>controller.go\<close>,
    \<^verbatim>\<open>rollout.go\<close>, \<^verbatim>\<open>reconcile.go\<close>): the controller's state (configuration, aggregator, push
    records, and the calls made on the work queue, in order), the rollout gate, one queue item,
    the event handlers, validation and construction.
  \<^item> \<open>Workers\<close> and \<open>System\<close> (\<^verbatim>\<open>Run\<close> of \<^verbatim>\<open>controller.go\<close>, \<^verbatim>\<open>reconcile.go\<close>): a worker as a sequence of
    single accesses to shared memory, shown to be \<open>processNextItem\<close> when undisturbed; client-go's work
    queue behind the contract \<open>work_queue\<close>; \<^verbatim>\<open>Run\<close> with its four workers, the resync goroutine, the
    informers with their callbacks and the shutdown as a step relation, \<open>move\<close> and \<open>disturb\<close>, whose
    handlers add up to those of \<open>Controller\<close> when undisturbed. Shown there: the controller
    stays well-formed, and what it accepts was loaded. \<open>Progress\<close>: one worker per key, no lost
    change of the configuration, and a bounded shutdown.
  \<^item> \<open>Netip\<close> (Go's \<^verbatim>\<open>net.ParseIP\<close>, \<^verbatim>\<open>IP.IsGlobalUnicast\<close>, \<^verbatim>\<open>IP.String\<close>) and \<open>Manager\<close>
    (\<^verbatim>\<open>cmd/manager/main.go\<close>): flags, endpoint table, namespace, configuration, logging, client and
    probes. The endpoint table is exactly the specified one and survives printing. \<open>Election\<close>
    (\<^verbatim>\<open>runWithLeaderElection\<close>, \<^verbatim>\<open>run\<close>, \<^verbatim>\<open>main\<close>): the election as a step relation over the waiting
    goroutine, the leading goroutine, the elector and the signal; what is reported, and exactly when
    the process exits with status 0.
  \<^item> \<open>Fleet\<close>: the rollout gate as a state machine over the nodes in service, with the cluster's
    own moves and a memory of the nodes an admission took down; at most one of them is down, except
    for restarts the gate could not follow, rollouts finish, and \<open>admitRollout\<close> refines the machine on
    the API server. When rollouts are shown to finish, a held node may try again at any time; the
    five-second requeue, which makes it do so, is shown for \<open>admitRollout\<close>.

  \<^bold>\<open>Correspondence.\<close> Definitions carry the Go names, with a suffix or prefix where a name is
  taken; records carry the struct fields. A method that changes the outside takes and returns its
  state; a method of the controller takes and returns the controller. Errors are values: an
  \<open>error option\<close>, or a sum with the error on the left; \<open>%w\<close>-wrapped API errors keep the API error.
  A nil dereference that the code could reach is \<open>None\<close> (\<open>caddyProblem\<close>), and it is shown not to
  be reached; the text that \<open>admitRollout\<close> computes with it for the log is not part of its result. 32- and 64-bit integers are words wherever they are computed with; times and
  durations are integers in nanoseconds, with \<^verbatim>\<open>Time.Sub\<close> saturating and the 64-bit product of
  seconds shown exact. Every loop is structural recursion or has a termination proof, so no fuel is
  used; the eight steps of \<open>worker_run\<close> are enough for the longest path of a worker, which is what
  \<open>worker_refines_processNextItem\<close> shows.

  \<^bold>\<open>Parameters.\<close> Code outside the repository is an argument, and what is assumed of it is a named
  hypothesis: the API server (\<open>kube_api\<close>, with \<open>kube_server\<close> and \<open>config_store\<close>), Caddy's admin
  endpoint and the decoding of its answers (\<open>admin_env\<close>), the informer caches (\<open>listers\<close>),
  apimachinery's validators (\<open>validators\<close>, with \<open>k8s_validation\<close>) and selector parser
  (\<open>platform\<close>), client-go's work queue (\<open>queue_api\<close>, with \<open>work_queue\<close>), the operating system, pflag's
  command-line syntax, zerolog's level names and client-go's configuration loading (\<open>host\<close>), the
  JSON encoding of pod templates, Unicode lower-casing, the clock and the ConfigMap size limit. A
  failed API call may or may not have taken effect. A successful delete removes the object at once:
  objects that linger because of finalizers or a grace period are outside the contract.

  \<^bold>\<open>Concurrency.\<close> The aggregator's methods run under its mutex, the push records' under theirs and
  the admission of a rollout under a third, so each is one step. The callback of an update of the
  aggregator runs after the mutex is released: listing the nodes and each addition to the queue are
  steps of their own, as they are for a resync. Between two accesses anything else may happen; only
  an acceptance and the queuing of the mirror key, and the last calls of a worker on the queue, are
  taken together. A
  deployment of a node is one step: it touches no shared memory but the queue, and since the
  environment of each step is arbitrary, its API calls may see any changes made by others.
  Delayed additions to the queue arrive at any later time.

  \<^bold>\<open>Not modelled.\<close> Logging, including the sampling of repeated messages; durations of contexts and
  timeouts, except as failing calls and as the nondeterministic timeout of the election; the
  informer factories, whose deliveries are arbitrary events; the lease protocol inside client-go's
  elector, so that no two managers lead at once is its promise and not shown here; the HTTP server
  behind the probes; charts and build files.

  \<^bold>\<open>This theory\<close> adds the property that spans the whole program.
\<close>

section \<open>What a new Caddy boots from\<close>

definition stores :: "(string \<Rightarrow> string \<Rightarrow> 's \<Rightarrow> config_map option) \<Rightarrow> 's env \<Rightarrow> bool" where
  \<comment> \<open>the API server keeps the ConfigMaps that \<open>look\<close> shows\<close>
  "stores look E \<longleftrightarrow> config_store (configmaps_get (kube E)) (configmaps_apply (kube E)) look"

definition boot_texts ::
  "(string \<Rightarrow> string \<Rightarrow> 's \<Rightarrow> config_map option) \<Rightarrow> aggregator \<Rightarrow> 's option \<Rightarrow> string set" where
  \<comment> \<open>the bootstrap Caddyfile, and the one found under a valid stamp when \<open>Run\<close> began\<close>
  "boot_texts look a found = {t. t = bootstrap a \<or>
     (\<exists>w. found = Some w \<and> mirrors a t (look (ag_namespace a) (mirrorName a) w))}"

definition boot_inv ::
  "(string \<Rightarrow> string \<Rightarrow> 's \<Rightarrow> config_map option) \<Rightarrow> 's controller \<Rightarrow> ('s, 'q) pool \<Rightarrow> bool" where
  "boot_inv look c S \<longleftrightarrow> steady c (ctl S) \<and>
     (if phase S = Starting
      then workers S = [] \<and> \<not> ticking S \<and> pushState (ctl S) = [] \<and> accepted (agg (ctl S)) = []
      else pool_sound (insert [] (boot_texts look (agg c) (booted S))) S)"

lemma boot_texts_steady:
  "steady c c' \<Longrightarrow> boot_texts look (agg c') found = boot_texts look (agg c) found"
  by (simp add: boot_texts_def steady_def same_setup_def mirrors_def snapshotHash_def)

lemma booted_kept: "pool_step Q Ok S S' \<Longrightarrow> phase S \<noteq> Starting \<Longrightarrow> booted S' = booted S"
  unfolding pool_step_def by (elim disjE move.cases disturb.cases) auto

lemma init_boot_text:
  assumes "stores look E" "InitializeMirror (kube E) a w = (None, b, w')"
  shows "accepted b \<in> boot_texts look a (Some w)"
  by (cases rule: config_store.InitializeMirror_cases [OF assms(1) [unfolded stores_def] refl refl assms(2),
        case_names kept reset])
    (auto simp: boot_texts_def)

lemma init_fail_accepted: "InitializeMirror api a w = (Some e, b, w') \<Longrightarrow> accepted b = accepted a"
  by (auto simp: InitializeMirror_def Let_def split: prod.splits sum.splits option.splits if_splits)

lemma boot_inv_step:
  assumes step: "pool_step Q (stores look) S S'" and inv: "boot_inv look c S"
  shows "boot_inv look c S'"
proof -
  have st: "steady c (ctl S)" "steady c (ctl S')"
    using inv steady_pool_step [OF step] steady_trans by (auto simp: boot_inv_def)
  show ?thesis
  proof (cases "phase S = Starting")
    case False
    then have "pool_sound (insert [] (boot_texts look (agg c) (booted S))) S'"
      using inv pool_sound_step [OF step] by (simp add: boot_inv_def)
    with booted_kept [OF step False] st show ?thesis by (simp add: boot_inv_def pool_sound_def)
  next
    case True
    with inv have fresh: "workers S = []" "\<not> ticking S" "pushState (ctl S) = []" "accepted (agg (ctl S)) = []"
      by (auto simp: boot_inv_def)
    from step consider "move Q (stores look) S S'" | "disturb Q (stores look) S S'" by (auto simp: pool_step_def)
    then show ?thesis
    proof cases
      case 1
      then show ?thesis
      proof cases
        case (init E a w)
        have "accepted a \<in> boot_texts look (agg c) (Some (world (ctl S)))"
          using init_boot_text [OF init(3,4)] unfolding boot_texts_steady [OF st(1)] .
        with init fresh st(2) show ?thesis by (simp add: boot_inv_def pool_sound_def memory_sound_def)
      next
        case (init_fail E e a w)
        with init_fail_accepted [OF init_fail(4)] fresh st(2) show ?thesis
          by (simp add: boot_inv_def pool_sound_def memory_sound_def)
      qed (use True fresh in simp_all)
    next
      case 2
      then show ?thesis by cases (use True fresh st(2) in \<open>simp_all add: boot_inv_def\<close>)
    qed
  qed
qed

lemma boot_inv_steps:
  assumes "NewController P add cf w = Inr c" and "(pool_step Q (stores look))\<^sup>*\<^sup>* (Run_pool c q) S"
  shows "boot_inv look c S"
  using assms(2)
proof (induction rule: rtranclp_induct)
  case base
  have "accepted (agg c) = []"
    using assms(1) by (auto simp: NewController_def New_def Let_def split: sum.splits option.splits)
  then show ?case
    using NewController_wf(2) [OF assms(1)] by (simp add: boot_inv_def Run_pool_def steady_def)
next
  case (step T U)
  then show ?case by (blast intro: boot_inv_step)
qed

text \<open>C1. New Caddy pods boot only from configurations that work. Construct a controller, call \<^verbatim>\<open>Run\<close>,
  and let its workers, events, resyncs and the outside interleave in any way, one access to shared
  memory at a time; whenever a worker then publishes the boot ConfigMap without error, the ConfigMap
  holds the bootstrap Caddyfile, or the configuration that \<^verbatim>\<open>Run\<close> found in it at the start under a
  stamp for this bootstrap Caddyfile, or a configuration with the SHA-256 digest of one that a Caddy
  instance has loaded since.\<close>

theorem boot_config_is_sound:
  assumes start: "NewController P add cf w = Inr c"
    and run: "(pool_step Q (stores look))\<^sup>*\<^sup>* (Run_pool c q) S"
    and "i < length (workers S)" and at: "workers S ! i = Publishing text"
    and store: "stores look E"
    and publish: "worker_step E (workers S ! i) (ctl S) = (Finishing mirrorKey None, c', L)"
  defines "ns \<equiv> CfgNamespace (cfg c)" and "name \<equiv> CfgBootConfigMapName (cfg c)"
  shows "\<exists>cm. look ns name (world c') = Some cm \<and>
           (map_str (Data cm) CaddyfileKey = bootstrap (agg c) \<or>
            (\<exists>w0. booted S = Some w0 \<and> mirrors (agg c) (map_str (Data cm) CaddyfileKey) (look ns name w0)) \<or>
            (\<exists>t \<in> loaded S. configDigest t = configDigest (map_str (Data cm) CaddyfileKey)))"
proof -
  have names: "ag_namespace (agg c) = ns" "mirrorName (agg c) = name"
    using NewController_wf(1) [OF start] by (simp_all add: ctrl_wf_def ns_def name_def)
  note inv = boot_inv_steps [OF start run]
  then have st: "ag_namespace (agg (ctl S)) = ns" "mirrorName (agg (ctl S)) = name"
    using names by (simp_all add: boot_inv_def steady_def same_setup_def)
  have "phase S \<noteq> Starting" using inv assms(3) by (auto simp: boot_inv_def)
  then have "worker_sound (insert [] (boot_texts look (agg c) (booted S))) (loaded S) (workers S ! i)"
    using inv assms(3) by (simp add: boot_inv_def pool_sound_def)
  then have known: "text \<in> boot_texts look (agg c) (booted S) \<or> (\<exists>t \<in> loaded S. configDigest t = configDigest text)"
    by (auto simp: at vouched_def)
  have "fst (publishMirror (kube E) (agg (ctl S)) text (world (ctl S))) = None"
    "world c' = snd (publishMirror (kube E) (agg (ctl S)) text (world (ctl S)))"
    using publish by (auto simp: at worker_step_def split: prod.splits elim!: on_world_cases)
  then have "mirrors (agg (ctl S)) text (look ns name (world c'))"
    using config_store.publishMirror_stores [OF store [unfolded stores_def] refl refl] st by (metis prod.collapse)
  with known names show ?thesis by (auto simp: mirrors_def boot_texts_def)
qed

lemma bootstrap_nonempty: "BootstrapCaddyfile a \<noteq> []"
  by (simp add: BootstrapCaddyfile_def)

lemma example_publishing:
  "\<exists>c S. NewController example_platform (\<lambda>_. None) example_config mem_empty = Inr c \<and>
     (pool_step list_queue_api (stores mem_find_cm))\<^sup>*\<^sup>* (Run_pool c (example_queue [mirrorKey])) S \<and>
     workers S = [Publishing (bootstrap (agg c)), Idle, Idle, Idle] \<and> loaded S = {} \<and> booted S = Some mem_empty \<and>
     m_faults (world (ctl S)) = []"
proof -
  let ?E = "example_env [] []" and ?step = "pool_step list_queue_api (stores mem_find_cm)"
  have E: "stores mem_find_cm ?E" by (simp add: stores_def example_sel mem_cm.config_store_axioms)
  obtain c where c: "NewController example_platform (\<lambda>_. None) example_config mem_empty = Inr c"
    using example_starts by blast
  note wf = NewController_wf [OF c]
  obtain a w where i: "InitializeMirror mem_api (agg c) mem_empty = (None, a, w)" "m_faults w = []"
    using mem_initialize [of mem_empty "agg c"] by (auto simp: mem_empty_def)
  have "mem_find_cm ns n mem_empty = None" for ns n by (simp add: mem_find_cm_def mem_empty_def)
  then have acc: "accepted a = bootstrap (agg c)"
    by (cases rule: config_store.InitializeMirror_cases [OF mem_cm.config_store_axioms refl refl i(1)])
      (simp_all add: mirrors_def)
  have ne: "bootstrap (agg c) \<noteq> []" using wf(1) bootstrap_nonempty by (simp add: ctrl_wf_def)
  let ?S0 = "Run_pool c (example_queue [mirrorKey])"
  let ?S1 = "?S0\<lparr>phase := Syncing, ctl := (ctl ?S0)\<lparr>agg := a, world := w\<rparr>, booted := Some (world (ctl ?S0))\<rparr>"
  let ?S2 = "?S1\<lparr>phase := Working, workers := replicate workerCount Idle,
    ticking := 0 < ConfigResyncInterval (cfg (ctl ?S1))\<rparr>"
  let ?S3 = "?S2\<lparr>workers := (workers ?S2)[0 := Picked mirrorKey],
    wqueue := \<lparr>lq_waiting = [], lq_active = [mirrorKey], lq_shut = False\<rparr>\<rparr>"
  have "move list_queue_api (stores mem_find_cm) ?S0 ?S1"
    by (rule move.init [where Ok = "stores mem_find_cm" and E = ?E])
      (simp_all add: E, simp_all add: Run_pool_def example_sel i wf(3))
  moreover have "move list_queue_api (stores mem_find_cm) ?S1 ?S2" by (rule move.synced) simp
  moreover have "move list_queue_api (stores mem_find_cm) ?S2 ?S3"
    by (rule move.get) (simp_all add: workerCount_def Run_pool_def example_queue_def list_queue_api_def lq_Get_def)
  ultimately have run: "?step\<^sup>*\<^sup>* ?S0 ?S3"
    by (meson move_pool converse_rtranclp_into_rtranclp r_into_rtranclp)
  have three: "workers ?S3 = Picked mirrorKey # [Idle, Idle, Idle]" by (simp add: workerCount_def numeral_eq_Suc)
  have "worker_step ?E (Picked mirrorKey) (ctl ?S3) = (Publishing (bootstrap (agg c)), ctl ?S3, {})"
    by (simp add: worker_step_def acc ne)
  from solo_work [where Q = list_queue_api and Ok = "stores mem_find_cm", OF three _ E this]
  obtain S where "?step ?S3 S" "workers S = [Publishing (bootstrap (agg c)), Idle, Idle, Idle]"
    "ctl S = (ctl ?S3)\<lparr>queue := []\<rparr>" "loaded S = loaded ?S3 \<union> {}" by auto
  moreover from this(1) have "booted S = booted ?S3" by (rule booted_kept) simp
  ultimately show ?thesis
    using c run wf(3) i(2) by (intro exI [of _ c] exI [of _ S]) (auto simp: Run_pool_def)
qed

theorem boot_config_is_sound_witness:
  "\<exists>c S c' cm. NewController example_platform (\<lambda>_. None) example_config mem_empty = Inr c \<and>
     (pool_step list_queue_api (stores mem_find_cm))\<^sup>*\<^sup>* (Run_pool c (example_queue [mirrorKey])) S \<and>
     worker_step (example_env [] []) (workers S ! 0) (ctl S) = (Finishing mirrorKey None, c', {}) \<and>
     mem_find_cm (CfgNamespace (cfg c)) (CfgBootConfigMapName (cfg c)) (world c') = Some cm \<and>
     map_str (Data cm) CaddyfileKey = bootstrap (agg c)"
proof -
  let ?E = "example_env [] []"
  obtain c S where S: "NewController example_platform (\<lambda>_. None) example_config mem_empty = Inr c"
    "(pool_step list_queue_api (stores mem_find_cm))\<^sup>*\<^sup>* (Run_pool c (example_queue [mirrorKey])) S"
    "workers S = [Publishing (bootstrap (agg c)), Idle, Idle, Idle]" "loaded S = {}" "booted S = Some mem_empty"
    "m_faults (world (ctl S)) = []"
    using example_publishing by blast
  obtain w' where "publishMirror mem_api (agg (ctl S)) (bootstrap (agg c)) (world (ctl S)) = (None, w')"
    using mem_publish [OF S(6)] by blast
  then obtain c' where p: "worker_step ?E (workers S ! 0) (ctl S) = (Finishing mirrorKey None, c', {})"
    by (simp add: S(3) worker_step_def on_world_def example_sel)
  have E: "stores mem_find_cm ?E" by (simp add: stores_def example_sel mem_cm.config_store_axioms)
  have i: "0 < length (workers S)" "workers S ! 0 = Publishing (bootstrap (agg c))" by (simp_all add: S(3))
  have "mem_find_cm ns n mem_empty = None" for ns n by (simp add: mem_find_cm_def mem_empty_def)
  with boot_config_is_sound [OF S(1,2) i E p] S p show ?thesis by (auto simp: mirrors_def)
qed

end
